theory Spec2Isabelle
  imports Main "HOL-Library.AList"
begin

section \<open>Python values\<close>

text \<open>
  The extractors of \<^verbatim>\<open>financial_advisor/response_extractor.py\<close> receive
  \<^verbatim>\<open>response.json()\<close>, that is any value a JSON document decodes to. A dict
  is an association list read with \<open>map_of\<close> (Python dicts keep insertion order);
  \<open>None\<close> is \<open>JNull\<close>. A float is kept as its literal, since the code never
  computes with numbers. Strings are lists of 8-bit characters.
\<close>

datatype json =
    JNull
  | JBool bool
  | JInt int
  | JFloat string
  | JStr string
  | JList "json list"
  | JDict "(string \<times> json) list"

datatype exn =
    AttributeError | TypeError | KeyError | JSONDecodeError | ValueError | RecursionError

text \<open>Sequencing of a computation that may raise, and Python's short-circuit \<open>and\<close>.\<close>

definition and_then :: "exn + 'a \<Rightarrow> ('a \<Rightarrow> exn + 'b) \<Rightarrow> exn + 'b" where
  "and_then m f = (case m of Inl e \<Rightarrow> Inl e | Inr x \<Rightarrow> f x)"

definition and_also :: "exn + bool \<Rightarrow> exn + bool \<Rightarrow> exn + bool" where
  "and_also a b = (case a of Inl e \<Rightarrow> Inl e | Inr x \<Rightarrow> (if x then b else Inr False))"

subsection \<open>Strings\<close>

fun starts_with :: "string \<Rightarrow> string \<Rightarrow> bool" where
  "starts_with [] s = True"
| "starts_with (p # ps) [] = False"
| "starts_with (p # ps) (c # cs) = (p = c \<and> starts_with ps cs)"

text \<open>\<^verbatim>\<open>p in s\<close> for two strings: \<open>p\<close> occurs in \<open>s\<close>.\<close>

fun contains :: "string \<Rightarrow> string \<Rightarrow> bool" where
  "contains p [] = starts_with p []"
| "contains p (c # cs) = (starts_with p (c # cs) \<or> contains p cs)"

text \<open>
  The characters below 256 that \<^verbatim>\<open>\s\<close> matches in a \<^verbatim>\<open>str\<close> pattern and that
  \<^verbatim>\<open>str.strip()\<close> removes: tab, line feed, vertical tab, form feed, carriage
  return, the separators 0x1C to 0x1F, space, 0x85 and 0xA0.
\<close>

definition is_space :: "char \<Rightarrow> bool" where
  "is_space c = (c \<in> set [CHR 0x09, CHR 0x0A, CHR 0x0B, CHR 0x0C, CHR 0x0D,
                            CHR 0x1C, CHR 0x1D, CHR 0x1E, CHR 0x1F, CHR 0x20,
                            CHR 0x85, CHR 0xA0])"

definition py_strip :: "string \<Rightarrow> string" where
  "py_strip s = rev (dropWhile is_space (rev (dropWhile is_space s)))"

subsection \<open>Operations on values\<close>

text \<open>\<^verbatim>\<open>d.get(k, dflt)\<close>: only a dict has the method.\<close>

definition py_get :: "json \<Rightarrow> string \<Rightarrow> json \<Rightarrow> exn + json" where
  "py_get d k dflt =
     (case d of
        JDict kvs \<Rightarrow> Inr (case map_of kvs k of None \<Rightarrow> dflt | Some v \<Rightarrow> v)
      | _ \<Rightarrow> Inl AttributeError)"

text \<open>
  \<^verbatim>\<open>k in c\<close> for a string \<open>k\<close>: key membership in a dict, element membership in
  a list, substring test in a string, \<open>TypeError\<close> on anything else.
\<close>

definition py_in :: "string \<Rightarrow> json \<Rightarrow> exn + bool" where
  "py_in k c =
     (case c of
        JDict kvs \<Rightarrow> Inr (k \<in> set (map fst kvs))
      | JList xs \<Rightarrow> Inr (JStr k \<in> set xs)
      | JStr s \<Rightarrow> Inr (contains k s)
      | _ \<Rightarrow> Inl TypeError)"

text \<open>
  \<^verbatim>\<open>c[k]\<close> for a string \<open>k\<close>: \<open>KeyError\<close> on a dict without the key,
  \<open>TypeError\<close> on every value that is not a dict.
\<close>

definition py_item :: "json \<Rightarrow> string \<Rightarrow> exn + json" where
  "py_item c k =
     (case c of
        JDict kvs \<Rightarrow> (case map_of kvs k of None \<Rightarrow> Inl KeyError | Some v \<Rightarrow> Inr v)
      | _ \<Rightarrow> Inl TypeError)"

text \<open>
  \<^verbatim>\<open>for x in c\<close>: the elements of a list, the one-character strings of a string,
  the keys of a dict; nothing else is iterable. \<^verbatim>\<open>reversed(c)\<close> gives the same
  items from the end, \<^verbatim>\<open>len(c)\<close> their number.
\<close>

definition py_iter :: "json \<Rightarrow> exn + json list" where
  "py_iter c =
     (case c of
        JList xs \<Rightarrow> Inr xs
      | JStr s \<Rightarrow> Inr (map (\<lambda>ch. JStr [ch]) s)
      | JDict kvs \<Rightarrow> Inr (map (\<lambda>kv. JStr (fst kv)) kvs)
      | _ \<Rightarrow> Inl TypeError)"

definition py_reversed :: "json \<Rightarrow> exn + json list" where
  "py_reversed c = and_then (py_iter c) (\<lambda>xs. Inr (rev xs))"

definition py_len :: "json \<Rightarrow> exn + nat" where
  "py_len c = and_then (py_iter c) (\<lambda>xs. Inr (length xs))"

section \<open>The fenced block search\<close>

text \<open>
  Both extractors call
  \<^verbatim>\<open>re.search(r'```json\s*\n(.*)\n```', raw_output, re.DOTALL)\<close> and read
  \<^verbatim>\<open>group(1)\<close>. The matcher below follows the backtracking order of the
  expression: the leftmost start, then the longest \<^verbatim>\<open>\s*\<close>, then the longest
  \<^verbatim>\<open>.*\<close> (which, under \<^verbatim>\<open>DOTALL\<close>, runs over line feeds too).
\<close>

text \<open>\<^verbatim>\<open>(.*)\n```\<close> against \<open>s\<close>: the group, taken as long as possible.\<close>

fun last_close :: "string \<Rightarrow> string option" where
  "last_close [] = None"
| "last_close (c # cs) =
     (case last_close cs of
        Some g \<Rightarrow> Some (c # g)
      | None \<Rightarrow> if starts_with ''\<newline>```'' (c # cs) then Some [] else None)"

text \<open>\<^verbatim>\<open>\s*\n(.*)\n```\<close> against \<open>s\<close>: the white space taken as long as possible.\<close>

fun after_open :: "string \<Rightarrow> string option" where
  "after_open [] = None"
| "after_open (c # cs) =
     (if is_space c then
        (case after_open cs of
           Some g \<Rightarrow> Some g
         | None \<Rightarrow> if c = CHR ''\<newline>'' then last_close cs else None)
      else None)"

definition match_here :: "string \<Rightarrow> string option" where
  "match_here s = (if starts_with ''```json'' s then after_open (drop 7 s) else None)"

fun fence_search :: "string \<Rightarrow> string option" where
  "fence_search [] = match_here []"
| "fence_search (c # cs) =
     (case match_here (c # cs) of Some g \<Rightarrow> Some g | None \<Rightarrow> fence_search cs)"

text \<open>\<^verbatim>\<open>re.search\<close> raises \<open>TypeError\<close> when its subject is not a string.\<close>

definition re_search :: "json \<Rightarrow> exn + string option" where
  "re_search raw_output =
     (case raw_output of JStr s \<Rightarrow> Inr (fence_search s) | _ \<Rightarrow> Inl TypeError)"

section \<open>extract\_financial\_coordinator\_output\<close>

text \<open>
  \<^verbatim>\<open>json.loads\<close> is library code: the extractors take it as the parameter
  \<open>loads\<close>. It returns the value, or raises: \<^verbatim>\<open>JSONDecodeError\<close> on a text
  that is not JSON, and other exceptions besides (\<^verbatim>\<open>RecursionError\<close> on deep
  nesting, \<^verbatim>\<open>ValueError\<close> on an integer literal beyond the digit limit).
\<close>

type_synonym loads = "string \<Rightarrow> exn + json"

text \<open>The condition of the \<^verbatim>\<open>if\<close> at lines 37 to 42.\<close>

definition coordinator_guard :: "json \<Rightarrow> exn + bool" where
  "coordinator_guard entry =
     and_also (and_then (py_get entry ''author'' JNull)
                 (\<lambda>a. Inr (a = JStr ''financial_coordinator'')))
    (and_also (py_in ''actions'' entry)
    (and_also (and_then (py_item entry ''actions'') (py_in ''stateDelta''))
              (and_then (py_item entry ''actions'') (\<lambda>acts.
               and_then (py_item acts ''stateDelta'')
                 (py_in ''financial_coordinator_output'')))))"

text \<open>
  The body of the inner \<^verbatim>\<open>try\<close>: \<open>Inr (Some v)\<close> is \<^verbatim>\<open>return v\<close>,
  \<open>Inr None\<close> is reaching the end of the body, \<open>Inl e\<close> is an exception.
\<close>

definition coordinator_try :: "loads \<Rightarrow> json \<Rightarrow> exn + json option" where
  "coordinator_try loads entry =
     and_then (coordinator_guard entry) (\<lambda>g.
       if g then
         and_then (and_then (py_item entry ''actions'') (\<lambda>acts.
                   and_then (py_item acts ''stateDelta'') (\<lambda>sd.
                   py_item sd ''financial_coordinator_output''))) (\<lambda>raw_output.
         and_then (re_search raw_output) (\<lambda>json_match.
           case json_match of
             Some grp \<Rightarrow>
               (case loads (py_strip grp) of
                  Inl e \<Rightarrow> Inl e
                | Inr parsed_output \<Rightarrow> Inr (Some parsed_output))
           | None \<Rightarrow> Inr None))
       else Inr None)"

text \<open>The loop over the reversed entries; \<^verbatim>\<open>except Exception: continue\<close>.\<close>

fun scan_reversed :: "loads \<Rightarrow> json list \<Rightarrow> json" where
  "scan_reversed loads [] = JNull"
| "scan_reversed loads (entry # rest) =
     (case coordinator_try loads entry of
        Inr (Some parsed_output) \<Rightarrow> parsed_output
      | _ \<Rightarrow> scan_reversed loads rest)"

definition financial_coordinator_try :: "loads \<Rightarrow> json \<Rightarrow> exn + json" where
  "financial_coordinator_try loads response_data =
     and_then (py_reversed response_data) (\<lambda>entries. Inr (scan_reversed loads entries))"

definition extract_financial_coordinator_output :: "loads \<Rightarrow> json \<Rightarrow> json" where
  "extract_financial_coordinator_output loads response_data =
     (case financial_coordinator_try loads response_data of
        Inl e \<Rightarrow> JNull
      | Inr result \<Rightarrow> result)"

section \<open>extract\_all\_agent\_outputs\<close>

text \<open>
  The dict \<^verbatim>\<open>outputs\<close> is an association list in the order of the literal at
  lines 72 to 78; \<^verbatim>\<open>outputs[key] = v\<close> is \<open>AList.update\<close>, which
  replaces the value of a key in place.
\<close>

type_synonym outputs = "(string \<times> json) list"

definition initial_outputs :: outputs where
  "initial_outputs =
     [(''data_analyst_output'', JNull),
      (''trading_analyst_output'', JNull),
      (''risk_analyst_output'', JNull),
      (''execution_analyst_output'', JNull),
      (''financial_coordinator_output'', JNull)]"

text \<open>
  Lines 91 to 102: the value to store for \<^verbatim>\<open>raw_output\<close>. The handler at line 97
  catches \<^verbatim>\<open>json.JSONDecodeError\<close> only; any other exception of
  \<^verbatim>\<open>json.loads\<close> leaves the block.
\<close>

definition parse_or_raw :: "loads \<Rightarrow> json \<Rightarrow> exn + json" where
  "parse_or_raw loads raw_output =
     (case raw_output of
        JStr s \<Rightarrow>
          (case fence_search s of
             Some grp \<Rightarrow>
               (case loads (py_strip grp) of
                  Inr parsed \<Rightarrow> Inr parsed
                | Inl e \<Rightarrow> if e = JSONDecodeError then Inr raw_output else Inl e)
           | None \<Rightarrow> Inr raw_output)
      | _ \<Rightarrow> Inr raw_output)"

text \<open>
  The loop \<^verbatim>\<open>for key in outputs.keys()\<close>. An exception leaves the loop with
  what was stored so far: the first component says whether one was raised.
\<close>

fun scan_keys :: "loads \<Rightarrow> json \<Rightarrow> string list \<Rightarrow> outputs \<Rightarrow> exn option \<times> outputs" where
  "scan_keys loads state_delta [] outs = (None, outs)"
| "scan_keys loads state_delta (key # keys) outs =
     (case and_also (py_in key state_delta) (Inr (map_of outs key = Some JNull)) of
        Inl e \<Rightarrow> (Some e, outs)
      | Inr False \<Rightarrow> scan_keys loads state_delta keys outs
      | Inr True \<Rightarrow>
          (case py_item state_delta key of
             Inl e \<Rightarrow> (Some e, outs)
           | Inr raw_output \<Rightarrow>
               (case parse_or_raw loads raw_output of
                  Inl e \<Rightarrow> (Some e, outs)
                | Inr v \<Rightarrow> scan_keys loads state_delta keys (AList.update key v outs))))"

text \<open>One entry: the inner \<^verbatim>\<open>try\<close> with \<^verbatim>\<open>except Exception: continue\<close>.\<close>

definition outputs_entry :: "loads \<Rightarrow> json \<Rightarrow> outputs \<Rightarrow> outputs" where
  "outputs_entry loads entry outs =
     (case and_also (py_in ''actions'' entry)
             (and_then (py_item entry ''actions'') (py_in ''stateDelta'')) of
        Inr True \<Rightarrow>
          (case and_then (py_item entry ''actions'') (\<lambda>acts. py_item acts ''stateDelta'') of
             Inr state_delta \<Rightarrow> snd (scan_keys loads state_delta (map fst outs) outs)
           | Inl e \<Rightarrow> outs)
      | _ \<Rightarrow> outs)"

fun scan_entries :: "loads \<Rightarrow> json list \<Rightarrow> outputs \<Rightarrow> outputs" where
  "scan_entries loads [] outs = outs"
| "scan_entries loads (entry # rest) outs =
     scan_entries loads rest (outputs_entry loads entry outs)"

definition all_agent_outputs_try :: "loads \<Rightarrow> json \<Rightarrow> exn + outputs" where
  "all_agent_outputs_try loads response_data =
     and_then (py_iter response_data) (\<lambda>entries.
       Inr (scan_entries loads entries initial_outputs))"

text \<open>The outer handler returns the empty dict.\<close>

definition extract_all_agent_outputs :: "loads \<Rightarrow> json \<Rightarrow> outputs" where
  "extract_all_agent_outputs loads response_data =
     (case all_agent_outputs_try loads response_data of
        Inl e \<Rightarrow> []
      | Inr outs \<Rightarrow> outs)"

section \<open>extract\_conversation\_summary\<close>

record agent_call =
  entry_index :: nat
  function_name :: json
  call_author :: json

record summary =
  total_entries :: nat
  authors :: "json list"
  agent_calls :: "agent_call list"
  final_output_found :: bool

text \<open>
  The loop over \<^verbatim>\<open>entry["content"]["parts"]\<close>; the calls appended before an
  exception stay in the list.
\<close>

fun scan_parts :: "nat \<Rightarrow> json \<Rightarrow> json list \<Rightarrow> agent_call list \<Rightarrow> exn option \<times> agent_call list" where
  "scan_parts i au [] calls = (None, calls)"
| "scan_parts i au (part # parts) calls =
     (case py_in ''functionCall'' part of
        Inl e \<Rightarrow> (Some e, calls)
      | Inr False \<Rightarrow> scan_parts i au parts calls
      | Inr True \<Rightarrow>
          (case and_then (py_item part ''functionCall'')
                  (\<lambda>fc. py_get fc ''name'' (JStr ''unknown'')) of
             Inl e \<Rightarrow> (Some e, calls)
           | Inr fname \<Rightarrow>
               scan_parts i au parts
                 (calls @ [\<lparr>entry_index = i, function_name = fname, call_author = au\<rparr>])))"

text \<open>The condition of the \<^verbatim>\<open>if\<close> at lines 148 to 153.\<close>

definition final_output_guard :: "json \<Rightarrow> json \<Rightarrow> exn + bool" where
  "final_output_guard au entry =
     and_also (Inr (au = JStr ''financial_coordinator''))
    (and_also (py_in ''actions'' entry)
    (and_also (and_then (py_item entry ''actions'') (py_in ''stateDelta''))
              (and_then (py_item entry ''actions'') (\<lambda>acts.
               and_then (py_item acts ''stateDelta'')
                 (py_in ''financial_coordinator_output'')))))"

definition final_output_check :: "json \<Rightarrow> json \<Rightarrow> summary \<Rightarrow> summary" where
  "final_output_check au entry s =
     (case final_output_guard au entry of
        Inr True \<Rightarrow> s\<lparr>final_output_found := True\<rparr>
      | _ \<Rightarrow> s)"

text \<open>One entry of the summary loop, with its \<^verbatim>\<open>except Exception: continue\<close>.\<close>

definition summary_entry :: "nat \<Rightarrow> json \<Rightarrow> summary \<Rightarrow> summary" where
  "summary_entry i entry s =
     (case py_get entry ''author'' (JStr ''unknown'') of
        Inl e \<Rightarrow> s
      | Inr au \<Rightarrow>
          (let s1 = s\<lparr>authors := authors s @ [au]\<rparr> in
           case and_also (py_in ''content'' entry)
                  (and_then (py_item entry ''content'') (py_in ''parts'')) of
             Inl e \<Rightarrow> s1
           | Inr False \<Rightarrow> final_output_check au entry s1
           | Inr True \<Rightarrow>
               (case and_then (and_then (py_item entry ''content'')
                                (\<lambda>content. py_item content ''parts'')) py_iter of
                  Inl e \<Rightarrow> s1
                | Inr parts \<Rightarrow>
                    (case scan_parts i au parts (agent_calls s1) of
                       (Some e, calls) \<Rightarrow> s1\<lparr>agent_calls := calls\<rparr>
                     | (None, calls) \<Rightarrow>
                         final_output_check au entry (s1\<lparr>agent_calls := calls\<rparr>)))))"

fun scan_summary :: "nat \<Rightarrow> json list \<Rightarrow> summary \<Rightarrow> summary" where
  "scan_summary i [] s = s"
| "scan_summary i (entry # rest) s = scan_summary (Suc i) rest (summary_entry i entry s)"

definition conversation_summary_try :: "json \<Rightarrow> exn + summary" where
  "conversation_summary_try response_data =
     and_then (py_len response_data) (\<lambda>n.
     and_then (py_iter response_data) (\<lambda>entries.
       Inr (scan_summary 0 entries
              \<lparr>total_entries = n, authors = [], agent_calls = [],
               final_output_found = False\<rparr>)))"

text \<open>The outer handler returns the empty dict, here \<open>None\<close>.\<close>

definition extract_conversation_summary :: "json \<Rightarrow> summary option" where
  "extract_conversation_summary response_data =
     (case conversation_summary_try response_data of
        Inl e \<Rightarrow> None
      | Inr s \<Rightarrow> Some s)"

section \<open>json.loads on the inputs of the examples\<close>

text \<open>
  The closed examples below need a value for \<open>loads\<close>. \<open>json_loads\<close> follows
  the scanner of Python's \<^verbatim>\<open>json\<close> package: white space, the literals, numbers
  (an integer as \<open>JInt\<close>, a number with a fraction or an exponent as \<open>JFloat\<close>
  with its literal), strings with their escapes (a \<^verbatim>\<open>\u\<close> escape only below
  256, the range of \<open>char\<close>), arrays and objects (the last value of a repeated
  key, at the place of the first). An integer literal of more than 4300 digits raises
  \<^verbatim>\<open>ValueError\<close> (the default limit of the conversion to \<^verbatim>\<open>int\<close>); every other
  failure is \<^verbatim>\<open>JSONDecodeError\<close>. The recursion runs on fuel; twice the length of
  the text covers every nesting the text can hold.
\<close>

definition json_space :: "char \<Rightarrow> bool" where
  "json_space c = (c \<in> set [CHR 0x20, CHR 0x09, CHR 0x0A, CHR 0x0D])"

definition skip_ws :: "string \<Rightarrow> string" where
  "skip_ws s = dropWhile json_space s"

definition is_digit :: "char \<Rightarrow> bool" where
  "is_digit c = (c \<in> set ''0123456789'')"

definition digits_value :: "string \<Rightarrow> int" where
  "digits_value ds = foldl (\<lambda>a c. 10 * a + (int (of_char c) - 48)) 0 ds"

definition scan_int :: "string \<Rightarrow> (string \<times> string) option" where
  "scan_int s =
     (let (sg, r) = (case s of c # t \<Rightarrow> if c = CHR ''-'' then ([c], t) else ([], s) | [] \<Rightarrow> ([], s))
      in case r of
           [] \<Rightarrow> None
         | d # t \<Rightarrow>
             if d = CHR ''0'' then Some (sg @ [d], t)
             else if is_digit d then Some (sg @ takeWhile is_digit r, dropWhile is_digit r)
             else None)"

definition scan_frac :: "string \<Rightarrow> string \<times> string" where
  "scan_frac s =
     (case s of
        c # d # r \<Rightarrow>
          if c = CHR ''.'' \<and> is_digit d
          then (c # takeWhile is_digit (d # r), dropWhile is_digit (d # r))
          else ([], s)
      | _ \<Rightarrow> ([], s))"

definition scan_exp :: "string \<Rightarrow> string \<times> string" where
  "scan_exp s =
     (case s of
        [] \<Rightarrow> ([], s)
      | e # r \<Rightarrow>
          if e = CHR ''e'' \<or> e = CHR ''E'' then
            (let (sg, r') = (case r of c # t \<Rightarrow> if c = CHR ''-'' \<or> c = CHR ''+'' then ([c], t) else ([], r)
                                     | [] \<Rightarrow> ([], r))
             in case r' of
                  [] \<Rightarrow> ([], s)
                | d # t \<Rightarrow>
                    if is_digit d then (e # sg @ takeWhile is_digit r', dropWhile is_digit r')
                    else ([], s))
          else ([], s))"

definition int_of_literal :: "string \<Rightarrow> int" where
  "int_of_literal s =
     (case s of
        [] \<Rightarrow> 0
      | c # t \<Rightarrow> if c = CHR ''-'' then - digits_value t else digits_value s)"

definition literal_digits :: "string \<Rightarrow> string" where
  "literal_digits s =
     (case s of
        [] \<Rightarrow> []
      | c # t \<Rightarrow> if c = CHR ''-'' then t else s)"

text \<open>\<open>None\<close>: no number starts here.\<close>

definition parse_number :: "string \<Rightarrow> (exn + json \<times> string) option" where
  "parse_number s =
     (case scan_int s of
        None \<Rightarrow> None
      | Some (ip, r) \<Rightarrow>
          (let (fr, r1) = scan_frac r; (ex, r2) = scan_exp r1
           in Some (if fr = [] \<and> ex = [] then
                      (if 4300 < length (literal_digits ip) then Inl ValueError
                       else Inr (JInt (int_of_literal ip), r2))
                    else Inr (JFloat (ip @ fr @ ex), r2))))"

definition hex_digit :: "char \<Rightarrow> nat option" where
  "hex_digit c =
     (let n = of_char c in
      if 48 \<le> n \<and> n \<le> 57 then Some (n - 48)
      else if 65 \<le> n \<and> n \<le> 70 then Some (n - 55)
      else if 97 \<le> n \<and> n \<le> 102 then Some (n - 87)
      else None)"

definition hex4 :: "char \<Rightarrow> char \<Rightarrow> char \<Rightarrow> char \<Rightarrow> nat option" where
  "hex4 a b c d =
     (case (hex_digit a, hex_digit b, hex_digit c, hex_digit d) of
        (Some w, Some x, Some y, Some z) \<Rightarrow> Some (((w * 16 + x) * 16 + y) * 16 + z)
      | _ \<Rightarrow> None)"

definition unescape :: "char \<Rightarrow> char option" where
  "unescape e =
     (if e = CHR 0x22 \<or> e = CHR 0x5C \<or> e = CHR ''/'' then Some e
      else if e = CHR ''b'' then Some (CHR 0x08)
      else if e = CHR ''f'' then Some (CHR 0x0C)
      else if e = CHR ''n'' then Some (CHR 0x0A)
      else if e = CHR ''r'' then Some (CHR 0x0D)
      else if e = CHR ''t'' then Some (CHR 0x09)
      else None)"

fun scan_string :: "string \<Rightarrow> string \<Rightarrow> (string \<times> string) option" where
  "scan_string [] acc = None"
| "scan_string (c # cs) acc =
     (if c = CHR 0x22 then Some (rev acc, cs)
      else if c = CHR 0x5C then
        (case cs of
           [] \<Rightarrow> None
         | e # r \<Rightarrow>
             if e = CHR ''u'' then
               (case r of
                  h1 # h2 # h3 # h4 # r' \<Rightarrow>
                    (case hex4 h1 h2 h3 h4 of
                       Some n \<Rightarrow> if n < 256 then scan_string r' (char_of n # acc) else None
                     | None \<Rightarrow> None)
                | _ \<Rightarrow> None)
             else
               (case unescape e of
                  Some ch \<Rightarrow> scan_string r (ch # acc)
                | None \<Rightarrow> None))
      else if (of_char c :: nat) < 32 then None
      else scan_string cs (c # acc))"

fun parse_value :: "nat \<Rightarrow> string \<Rightarrow> exn + json \<times> string"
  and parse_items :: "nat \<Rightarrow> string \<Rightarrow> json list \<Rightarrow> exn + json \<times> string"
  and parse_pairs :: "nat \<Rightarrow> string \<Rightarrow> (string \<times> json) list \<Rightarrow> exn + json \<times> string"
where
  "parse_value 0 s = Inl JSONDecodeError"
| "parse_value (Suc n) s =
     (case s of
        [] \<Rightarrow> Inl JSONDecodeError
      | c # cs \<Rightarrow>
          if c = CHR 0x22 then
            (case scan_string cs [] of
               Some (str, r) \<Rightarrow> Inr (JStr str, r)
             | None \<Rightarrow> Inl JSONDecodeError)
          else if c = CHR ''{'' then
            (if starts_with ''}'' (skip_ws cs) then Inr (JDict [], drop 1 (skip_ws cs))
             else parse_pairs n (skip_ws cs) [])
          else if c = CHR ''['' then
            (if starts_with '']'' (skip_ws cs) then Inr (JList [], drop 1 (skip_ws cs))
             else parse_items n (skip_ws cs) [])
          else if starts_with ''null'' s then Inr (JNull, drop 4 s)
          else if starts_with ''true'' s then Inr (JBool True, drop 4 s)
          else if starts_with ''false'' s then Inr (JBool False, drop 5 s)
          else
            (case parse_number s of
               Some x \<Rightarrow> x
             | None \<Rightarrow>
                 if starts_with ''NaN'' s then Inr (JFloat ''NaN'', drop 3 s)
                 else if starts_with ''Infinity'' s then Inr (JFloat ''Infinity'', drop 8 s)
                 else if starts_with ''-Infinity'' s then Inr (JFloat ''-Infinity'', drop 9 s)
                 else Inl JSONDecodeError))"
| "parse_items 0 s acc = Inl JSONDecodeError"
| "parse_items (Suc n) s acc =
     (case parse_value n s of
        Inl e \<Rightarrow> Inl e
      | Inr (v, r) \<Rightarrow>
          (case skip_ws r of
             [] \<Rightarrow> Inl JSONDecodeError
           | c # r' \<Rightarrow>
               if c = CHR '']'' then Inr (JList (acc @ [v]), r')
               else if c = CHR '','' then parse_items n (skip_ws r') (acc @ [v])
               else Inl JSONDecodeError))"
| "parse_pairs 0 s acc = Inl JSONDecodeError"
| "parse_pairs (Suc n) s acc =
     (case s of
        [] \<Rightarrow> Inl JSONDecodeError
      | c # cs \<Rightarrow>
          if c = CHR 0x22 then
            (case scan_string cs [] of
               None \<Rightarrow> Inl JSONDecodeError
             | Some (k, r) \<Rightarrow>
                 (case skip_ws r of
                    [] \<Rightarrow> Inl JSONDecodeError
                  | c2 # r2 \<Rightarrow>
                      if c2 = CHR '':'' then
                        (case parse_value n (skip_ws r2) of
                           Inl e \<Rightarrow> Inl e
                         | Inr (v, r3) \<Rightarrow>
                             (case skip_ws r3 of
                                [] \<Rightarrow> Inl JSONDecodeError
                              | c3 # r4 \<Rightarrow>
                                  if c3 = CHR ''}'' then Inr (JDict (AList.update k v acc), r4)
                                  else if c3 = CHR '','' then
                                    parse_pairs n (skip_ws r4) (AList.update k v acc)
                                  else Inl JSONDecodeError))
                      else Inl JSONDecodeError))
          else Inl JSONDecodeError)"

definition json_loads :: loads where
  "json_loads s =
     (case parse_value (2 * length s + 2) (skip_ws s) of
        Inl e \<Rightarrow> Inl e
      | Inr (v, r) \<Rightarrow> if skip_ws r = [] then Inr v else Inl JSONDecodeError)"

section \<open>Reading an entry\<close>

text \<open>
  The vocabulary of the statements below. An event is a JSON object; \<open>dict_field\<close>
  reads a field of an object and gives \<open>None\<close> on every other value.
\<close>

definition dict_field :: "string \<Rightarrow> json \<Rightarrow> json option" where
  "dict_field k j = (case j of JDict kvs \<Rightarrow> map_of kvs k | _ \<Rightarrow> None)"

text \<open>The event's \<^verbatim>\<open>actions.stateDelta\<close>, and the value it holds under a key.\<close>

definition state_delta :: "json \<Rightarrow> json option" where
  "state_delta e =
     (case dict_field ''actions'' e of
        None \<Rightarrow> None
      | Some acts \<Rightarrow> dict_field ''stateDelta'' acts)"

definition delta_value :: "json \<Rightarrow> string \<Rightarrow> json option" where
  "delta_value e k =
     (case state_delta e of None \<Rightarrow> None | Some sd \<Rightarrow> dict_field k sd)"

text \<open>
  A matching event of the targeted extractor: its author is the coordinator and its
  \<^verbatim>\<open>stateDelta\<close> holds the coordinator's output key. \<open>coordinator_value\<close> is the
  raw value of such an event.
\<close>

definition coordinator_value :: "json \<Rightarrow> json option" where
  "coordinator_value e =
     (if dict_field ''author'' e = Some (JStr ''financial_coordinator'')
      then delta_value e ''financial_coordinator_output'' else None)"

text \<open>
  A raw value decodes when it is text, the fenced block search finds a group in it and
  \<open>loads\<close> returns a value for the group, stripped.
\<close>

definition decode_strict :: "loads \<Rightarrow> json \<Rightarrow> json option" where
  "decode_strict loads raw =
     (case raw of
        JStr s \<Rightarrow>
          (case fence_search s of
             Some g \<Rightarrow> (case loads (py_strip g) of Inr v \<Rightarrow> Some v | Inl e \<Rightarrow> None)
           | None \<Rightarrow> None)
      | _ \<Rightarrow> None)"

definition coordinator_decoded :: "loads \<Rightarrow> json \<Rightarrow> json option" where
  "coordinator_decoded loads e =
     (case coordinator_value e of None \<Rightarrow> None | Some raw \<Rightarrow> decode_strict loads raw)"

text \<open>
  What an event offers the aggregate extractor for a key: nothing when its
  \<^verbatim>\<open>stateDelta\<close> does not hold the key, otherwise the outcome of lines 91 to 102
  on the value it holds.
\<close>

definition resolution :: "loads \<Rightarrow> json \<Rightarrow> string \<Rightarrow> (exn + json) option" where
  "resolution loads e k =
     (case delta_value e k of None \<Rightarrow> None | Some raw \<Rightarrow> Some (parse_or_raw loads raw))"

text \<open>
  The key loop of event \<open>e\<close>, entered with the outputs \<open>outs\<close>, is left before it
  comes to key \<open>k\<close>: a key listed before \<open>k\<close> is still \<open>None\<close>, the event holds
  it, and \<open>loads\<close> raises something other than \<^verbatim>\<open>JSONDecodeError\<close> on its value.
\<close>

definition aborts_before :: "loads \<Rightarrow> outputs \<Rightarrow> json \<Rightarrow> string \<Rightarrow> bool" where
  "aborts_before loads outs e k =
     list_ex (\<lambda>k'. map_of outs k' = Some JNull \<and>
                   (case resolution loads e k' of None \<Rightarrow> False | Some r \<Rightarrow> isl r))
       (takeWhile (\<lambda>k'. k' \<noteq> k) (map fst outs))"

text \<open>
  The entry with every key outside the registry removed from its \<^verbatim>\<open>stateDelta\<close>
  (when the fields on the way are objects; the entry itself otherwise).
\<close>

definition on_dict :: "((string \<times> json) list \<Rightarrow> (string \<times> json) list) \<Rightarrow> json \<Rightarrow> json" where
  "on_dict f j = (case j of JDict kvs \<Rightarrow> JDict (f kvs) | _ \<Rightarrow> j)"

definition keep_registered :: "json \<Rightarrow> json" where
  "keep_registered e =
     on_dict (AList.map_entry ''actions''
       (on_dict (AList.map_entry ''stateDelta''
         (on_dict (AList.restrict (set (map fst initial_outputs))))))) e"

text \<open>What one entry at index \<open>i\<close> adds to a summary that is still empty.\<close>

definition empty_summary :: summary where
  "empty_summary = \<lparr>total_entries = 0, authors = [], agent_calls = [], final_output_found = False\<rparr>"

definition entry_summary :: "nat \<Rightarrow> json \<Rightarrow> summary" where
  "entry_summary i e = summary_entry i e empty_summary"

definition is_record :: "json \<Rightarrow> bool" where
  "is_record e = (case e of JDict kvs \<Rightarrow> True | _ \<Rightarrow> False)"

definition author_or_unknown :: "json \<Rightarrow> json" where
  "author_or_unknown e = (case dict_field ''author'' e of None \<Rightarrow> JStr ''unknown'' | Some a \<Rightarrow> a)"

section \<open>Example traces\<close>

text \<open>An event of one author whose \<^verbatim>\<open>stateDelta\<close> holds one key, and a fenced payload.\<close>

definition event :: "string \<Rightarrow> string \<Rightarrow> json \<Rightarrow> json" where
  "event au key v =
     JDict [(''author'', JStr au), (''actions'', JDict [(''stateDelta'', JDict [(key, v)])])]"

definition fenced :: "string \<Rightarrow> string" where
  "fenced body = ''```json\<newline>'' @ body @ ''\<newline>```''"

definition score_event :: json where
  \<open>score_event =
     event ''financial_coordinator'' ''financial_coordinator_output''
       (JStr (fenced ''{"score": 42}''))\<close>

definition plain_event :: json where
  "plain_event =
     event ''financial_coordinator'' ''financial_coordinator_output'' (JStr ''no fence here'')"

definition broken_json_event :: json where
  \<open>broken_json_event =
     event ''financial_coordinator'' ''financial_coordinator_output''
       (JStr (fenced ''{"score": ''))\<close>

definition structured_event :: json where
  "structured_event =
     event ''financial_coordinator'' ''financial_coordinator_output''
       (JDict [(''score'', JInt 42)])"

definition two_fenced_blocks :: string where
  "two_fenced_blocks = fenced ''1'' @ ''\<newline>'' @ fenced ''2''"

definition other_author_event :: json where
  "other_author_event =
     event ''data_analyst'' ''financial_coordinator_output'' (JStr (fenced ''0''))"

definition first_event :: json where
  "first_event =
     event ''financial_coordinator'' ''financial_coordinator_output'' (JStr (fenced ''1''))"

definition second_event :: json where
  "second_event =
     event ''financial_coordinator'' ''financial_coordinator_output'' (JStr (fenced ''2''))"

definition null_payload_event :: json where
  "null_payload_event =
     event ''financial_coordinator'' ''financial_coordinator_output'' (JStr (fenced ''null''))"

definition null_value_event :: json where
  "null_value_event = event ''data_analyst'' ''data_analyst_output'' JNull"

definition text_value_event :: json where
  "text_value_event = event ''data_analyst'' ''data_analyst_output'' (JStr ''second'')"

text \<open>
  An entry without author whose \<^verbatim>\<open>actions\<close> is a string: \<^verbatim>\<open>"stateDelta" in\<close>
  that string holds, and the subscript that follows raises.
\<close>

definition malformed_entry :: json where
  "malformed_entry = JDict [(''actions'', JStr ''stateDelta'')]"

definition extra_key_event :: json where
  "extra_key_event =
     JDict [(''author'', JStr ''data_analyst''),
            (''actions'', JDict [(''stateDelta'',
               JDict [(''scratch_note'', JStr ''x''), (''data_analyst_output'', JInt 7)])])]"

text \<open>
  An integer literal of 4301 digits, one more than \<^verbatim>\<open>int\<close> converts: valid JSON on
  which \<^verbatim>\<open>json.loads\<close> raises \<^verbatim>\<open>ValueError\<close>. With a closing brace after it the
  text is malformed as well, and the exception is the same.
\<close>

definition long_integer :: string where
  "long_integer = CHR ''1'' # replicate 4300 (CHR ''1'')"

definition long_integer_event :: json where
  "long_integer_event =
     JDict [(''author'', JStr ''data_analyst''),
            (''actions'', JDict [(''stateDelta'',
               JDict [(''data_analyst_output'', JStr (fenced long_integer)),
                      (''trading_analyst_output'', JStr ''t'')])])]"

definition blocked_first_event :: json where
  "blocked_first_event =
     JDict [(''author'', JStr ''financial_coordinator''),
            (''actions'', JDict [(''stateDelta'',
               JDict [(''data_analyst_output'', JStr (fenced long_integer)),
                      (''financial_coordinator_output'', JStr (fenced ''1''))])])]"


section \<open>Lemmas\<close>

text \<open>
  The lemmas relate each Python operation to the reading of an entry, then each loop to
  its entries.
\<close>

lemma and_then_simps [simp]:
  "and_then (Inr x) f = f x" "and_then (Inl e) f = Inl e"
  by (simp_all add: and_then_def)

lemma and_also_simps [simp]:
  "and_also (Inr True) b = b" "and_also (Inr False) b = Inr False" "and_also (Inl e) b = Inl e"
  by (simp_all add: and_also_def)

lemma py_item_Some: "dict_field k c = Some v \<Longrightarrow> py_item c k = Inr v"
  by (cases c) (auto simp: py_item_def dict_field_def)

lemma py_item_None: "dict_field k c = None \<Longrightarrow> \<exists>x. py_item c k = Inl x"
  by (cases c) (auto simp: py_item_def dict_field_def)

lemma py_item_Inr_iff: "py_item c k = Inr v \<longleftrightarrow> dict_field k c = Some v"
  by (cases "dict_field k c") (auto dest: py_item_None py_item_Some)

lemma py_item_chain_iff:
  "and_then (py_item e ''actions'') (\<lambda>acts. and_then (py_item acts ''stateDelta'') (\<lambda>sd. py_item sd k)) = Inr v
   \<longleftrightarrow> delta_value e k = Some v"
proof (cases "py_item e ''actions''")
  case (Inl x)
  then have "dict_field ''actions'' e = None"
    by (cases "dict_field ''actions'' e") (auto dest: py_item_Some)
  with Inl show ?thesis by (simp add: delta_value_def state_delta_def)
next
  case a: (Inr acts)
  then have fa: "dict_field ''actions'' e = Some acts" by (simp add: py_item_Inr_iff)
  show ?thesis
  proof (cases "py_item acts ''stateDelta''")
    case (Inl x)
    then have "dict_field ''stateDelta'' acts = None"
      by (cases "dict_field ''stateDelta'' acts") (auto dest: py_item_Some)
    with Inl a fa show ?thesis by (simp add: delta_value_def state_delta_def)
  next
    case (Inr sd)
    then have fs: "dict_field ''stateDelta'' acts = Some sd" by (simp add: py_item_Inr_iff)
    show ?thesis by (simp add: a Inr delta_value_def state_delta_def fa fs py_item_Inr_iff)
  qed
qed

lemma py_in_dict_field: "dict_field k c = Some v \<Longrightarrow> py_in k c = Inr True"
  by (cases c) (auto simp: py_in_def dict_field_def dest: map_of_SomeD intro: rev_image_eqI)

lemma coordinator_guard_author:
  "coordinator_guard e = Inr True \<Longrightarrow> dict_field ''author'' e = Some (JStr ''financial_coordinator'')"
  by (cases e) (auto simp: coordinator_guard_def and_also_def and_then_def py_get_def dict_field_def
      split: sum.splits option.splits if_splits)

lemma coordinator_guard_value:
  assumes "coordinator_value e = Some raw"
  shows "coordinator_guard e = Inr True"
proof -
  from assms have au: "dict_field ''author'' e = Some (JStr ''financial_coordinator'')"
    and dv: "delta_value e ''financial_coordinator_output'' = Some raw"
    by (auto simp: coordinator_value_def split: if_splits)
  from dv obtain acts sd where a: "dict_field ''actions'' e = Some acts"
    and s: "dict_field ''stateDelta'' acts = Some sd"
    and r: "dict_field ''financial_coordinator_output'' sd = Some raw"
    by (auto simp: delta_value_def state_delta_def split: option.splits)
  from au have g: "py_get e ''author'' JNull = Inr (JStr ''financial_coordinator'')"
    by (cases e) (auto simp: py_get_def dict_field_def)
  from a have ia: "py_item e ''actions'' = Inr acts" by (simp add: py_item_Inr_iff)
  from s have isd: "py_item acts ''stateDelta'' = Inr sd" by (simp add: py_item_Inr_iff)
  show ?thesis
    unfolding coordinator_guard_def
    by (simp add: g ia isd and_also_def and_then_def py_in_dict_field[OF a] py_in_dict_field[OF s]
        py_in_dict_field[OF r])
qed

lemma coordinator_try_Some_iff:
  "coordinator_try loads e = Inr (Some v) \<longleftrightarrow> coordinator_decoded loads e = Some v"
proof
  assume h: "coordinator_try loads e = Inr (Some v)"
  then have g: "coordinator_guard e = Inr True"
    by (cases "coordinator_guard e") (auto simp: coordinator_try_def split: if_splits)
  from h g obtain raw where
    c: "and_then (py_item e ''actions'') (\<lambda>acts. and_then (py_item acts ''stateDelta'')
          (\<lambda>sd. py_item sd ''financial_coordinator_output'')) = Inr raw"
    and d: "and_then (re_search raw) (\<lambda>json_match.
           case json_match of
             Some grp \<Rightarrow>
               (case loads (py_strip grp) of
                  Inl e \<Rightarrow> Inl e
                | Inr parsed_output \<Rightarrow> Inr (Some parsed_output))
           | None \<Rightarrow> Inr None) = Inr (Some v)"
    by (cases "and_then (py_item e ''actions'') (\<lambda>acts. and_then (py_item acts ''stateDelta'')
          (\<lambda>sd. py_item sd ''financial_coordinator_output''))")
       (simp_all add: coordinator_try_def)
  from c have dv: "delta_value e ''financial_coordinator_output'' = Some raw"
    by (simp add: py_item_chain_iff)
  from d have "decode_strict loads raw = Some v"
    by (cases raw) (auto simp: re_search_def decode_strict_def and_then_def split: option.splits sum.splits)
  with dv coordinator_guard_author[OF g] show "coordinator_decoded loads e = Some v"
    by (simp add: coordinator_decoded_def coordinator_value_def)
next
  assume h: "coordinator_decoded loads e = Some v"
  then obtain raw where cv: "coordinator_value e = Some raw" and d: "decode_strict loads raw = Some v"
    by (auto simp: coordinator_decoded_def split: option.splits)
  from cv have dv: "delta_value e ''financial_coordinator_output'' = Some raw"
    by (auto simp: coordinator_value_def split: if_splits)
  then have c: "and_then (py_item e ''actions'') (\<lambda>acts. and_then (py_item acts ''stateDelta'')
          (\<lambda>sd. py_item sd ''financial_coordinator_output'')) = Inr raw"
    by (simp add: py_item_chain_iff)
  from d show "coordinator_try loads e = Inr (Some v)"
    by (cases raw)
       (auto simp: coordinator_try_def coordinator_guard_value[OF cv] c re_search_def
          decode_strict_def split: option.splits sum.splits)
qed

lemma scan_reversed_skip:
  "\<forall>x\<in>set xs. coordinator_decoded loads x = None \<Longrightarrow>
   scan_reversed loads (xs @ ys) = scan_reversed loads ys"
proof (induction xs)
  case Nil
  then show ?case by simp
next
  case (Cons x xs)
  then have "coordinator_decoded loads x = None" by simp
  then have "\<And>v. coordinator_try loads x \<noteq> Inr (Some v)"
    by (simp add: coordinator_try_Some_iff)
  then have "scan_reversed loads (x # xs @ ys) = scan_reversed loads (xs @ ys)"
    by (auto split: sum.splits option.splits)
  with Cons show ?case by simp
qed

lemma scan_reversed_hit:
  "coordinator_decoded loads e = Some v \<Longrightarrow> scan_reversed loads (e # ys) = v"
  by (simp add: coordinator_try_Some_iff[symmetric])

lemma extract_fc_list:
  "extract_financial_coordinator_output loads (JList es) = scan_reversed loads (rev es)"
  by (simp add: extract_financial_coordinator_output_def financial_coordinator_try_def
      py_reversed_def py_iter_def and_then_def)

lemma py_item_state_delta:
  "and_then (py_item e ''actions'') (\<lambda>acts. py_item acts ''stateDelta'') = Inr sd
   \<longleftrightarrow> state_delta e = Some sd"
proof (cases "py_item e ''actions''")
  case (Inl x)
  then have "dict_field ''actions'' e = None"
    by (cases "dict_field ''actions'' e") (auto dest: py_item_Some)
  with Inl show ?thesis by (simp add: state_delta_def)
next
  case a: (Inr acts)
  then have fa: "dict_field ''actions'' e = Some acts" by (simp add: py_item_Inr_iff)
  show ?thesis by (simp add: a fa state_delta_def py_item_Inr_iff)
qed

lemma state_delta_guard:
  assumes "state_delta e = Some sd"
  shows "and_also (py_in ''actions'' e)
           (and_then (py_item e ''actions'') (py_in ''stateDelta'')) = Inr True"
proof -
  from assms obtain acts where a: "dict_field ''actions'' e = Some acts"
    and s: "dict_field ''stateDelta'' acts = Some sd"
    by (auto simp: state_delta_def split: option.splits)
  show ?thesis
    by (simp add: py_in_dict_field[OF a] py_in_dict_field[OF s] py_item_Some[OF a])
qed

lemma outputs_entry_cases:
  "outputs_entry loads e outs =
     (case state_delta e of
        Some sd \<Rightarrow> snd (scan_keys loads sd (map fst outs) outs)
      | None \<Rightarrow> outs)"
proof (cases "state_delta e")
  case None
  then have "\<And>sd. and_then (py_item e ''actions'') (\<lambda>acts. py_item acts ''stateDelta'') \<noteq> Inr sd"
    by (simp add: py_item_state_delta)
  with None show ?thesis
    by (auto simp: outputs_entry_def split: sum.splits bool.splits)
next
  case (Some sd)
  then have "and_then (py_item e ''actions'') (\<lambda>acts. py_item acts ''stateDelta'') = Inr sd"
    by (simp add: py_item_state_delta)
  with Some state_delta_guard[OF Some] show ?thesis
    by (simp add: outputs_entry_def)
qed

lemma py_in_JDict: "py_in k (JDict d) = Inr (map_of d k \<noteq> None)"
  by (simp add: py_in_def map_of_eq_None_iff)

lemma scan_keys_kept:
  "map_of outs k \<noteq> Some JNull \<or> k \<notin> set keys \<Longrightarrow>
   map_of (snd (scan_keys loads sd keys outs)) k = map_of outs k"
proof (induction keys arbitrary: outs)
  case Nil
  then show ?case by simp
next
  case (Cons key keys)
  show ?case
  proof (cases "key = k")
    case True
    with Cons.prems have n: "map_of outs key \<noteq> Some JNull" by auto
    have "and_also (py_in key sd) (Inr (map_of outs key = Some JNull)) = Inr False
          \<or> (\<exists>x. and_also (py_in key sd) (Inr (map_of outs key = Some JNull)) = Inl x)"
      using n by (cases "py_in key sd") (auto simp: and_also_def)
    then show ?thesis
      using Cons.IH[of outs] n True by auto
  next
    case False
    then have u: "\<And>v. map_of (AList.update key v outs) k = map_of outs k"
      by (simp add: update_conv')
    have p: "\<And>v. map_of (AList.update key v outs) k \<noteq> Some JNull \<or> k \<notin> set keys"
      using Cons.prems False by (auto simp: u)
    have q: "map_of outs k \<noteq> Some JNull \<or> k \<notin> set keys"
      using Cons.prems False by auto
    show ?thesis
      using Cons.IH[OF q] Cons.IH[OF p] u
      by (auto split: sum.splits bool.splits)
  qed
qed

lemma scan_keys_value:
  "map_of (snd (scan_keys loads sd keys outs)) k = map_of outs k \<or>
   (map_of outs k = Some JNull \<and>
    (\<exists>raw v. dict_field k sd = Some raw \<and> parse_or_raw loads raw = Inr v \<and>
       map_of (snd (scan_keys loads sd keys outs)) k = Some v))"
proof (induction keys arbitrary: outs)
  case Nil
  then show ?case by simp
next
  case (Cons key keys)
  show ?case
  proof (cases "and_also (py_in key sd) (Inr (map_of outs key = Some JNull))")
    case (Inl x)
    then show ?thesis by simp
  next
    case g: (Inr b)
    show ?thesis
    proof (cases b)
      case False
      with g Cons.IH[of outs] show ?thesis by simp
    next
      case True
      then have o: "map_of outs key = Some JNull"
        using g by (cases "py_in key sd") (auto simp: and_also_def split: if_splits)
      show ?thesis
      proof (cases "py_item sd key")
        case (Inl x)
        with g True show ?thesis by simp
      next
        case i: (Inr raw)
        then have f: "dict_field key sd = Some raw" by (simp add: py_item_Inr_iff)
        show ?thesis
        proof (cases "parse_or_raw loads raw")
          case (Inl x)
          with g True i show ?thesis by simp
        next
          case p: (Inr v)
          let ?outs = "AList.update key v outs"
          have s: "scan_keys loads sd (key # keys) outs = scan_keys loads sd keys ?outs"
            using g True i p by simp
          show ?thesis
          proof (cases "key = k")
            case False
            then have "map_of ?outs k = map_of outs k" by (simp add: update_conv')
            with Cons.IH[of ?outs] s show ?thesis by simp
          next
            case k: True
            then have "map_of ?outs k = Some v" by (simp add: update_conv')
            with Cons.IH[of ?outs] s o f p k show ?thesis by auto
          qed
        qed
      qed
    qed
  qed
qed

lemma scan_keys_reach:
  assumes "distinct keys" and "k \<in> set keys" and "map_of outs k = Some JNull"
    and "map_of d k = Some raw" and "parse_or_raw loads raw = Inr v"
    and "\<forall>k'\<in>set (takeWhile (\<lambda>k'. k' \<noteq> k) keys).
           map_of outs k' = Some JNull \<longrightarrow>
           (\<forall>r x. map_of d k' = Some r \<longrightarrow> parse_or_raw loads r \<noteq> Inl x)"
  shows "map_of (snd (scan_keys loads (JDict d) keys outs)) k = Some v"
  using assms(1,2,3,6)
proof (induction keys arbitrary: outs)
  case Nil
  then show ?case by simp
next
  case (Cons key keys)
  show ?case
  proof (cases "key = k")
    case True
    then have n: "k \<notin> set keys" using Cons.prems(1) by simp
    have "scan_keys loads (JDict d) (key # keys) outs
            = scan_keys loads (JDict d) keys (AList.update k v outs)"
      using True Cons.prems(3) assms(4,5) by (simp add: py_in_JDict py_item_def)
    then show ?thesis
      using scan_keys_kept[of "AList.update k v outs" k keys loads "JDict d"] n
      by (simp add: update_conv')
  next
    case False
    then have kin: "k \<in> set keys" using Cons.prems(2) by simp
    have dk: "distinct keys" and nk: "key \<notin> set keys" using Cons.prems(1) by simp_all
    have rest: "\<forall>k'\<in>set (takeWhile (\<lambda>k'. k' \<noteq> k) keys).
           map_of outs k' = Some JNull \<longrightarrow>
           (\<forall>r x. map_of d k' = Some r \<longrightarrow> parse_or_raw loads r \<noteq> Inl x)"
      using Cons.prems(4) False by simp
    have here: "map_of outs key = Some JNull \<longrightarrow>
           (\<forall>r x. map_of d key = Some r \<longrightarrow> parse_or_raw loads r \<noteq> Inl x)"
      using Cons.prems(4) False by simp
    show ?thesis
    proof (cases "map_of d key \<noteq> None \<and> map_of outs key = Some JNull")
      case False
      then have "scan_keys loads (JDict d) (key # keys) outs = scan_keys loads (JDict d) keys outs"
        by (cases "map_of d key") (auto simp: py_in_JDict and_also_def)
      with Cons.IH[OF dk kin Cons.prems(3) rest] show ?thesis by simp
    next
      case True
      then obtain r where r: "map_of d key = Some r" and o: "map_of outs key = Some JNull"
        by auto
      with here obtain v' where p: "parse_or_raw loads r = Inr v'"
        by (cases "parse_or_raw loads r") auto
      let ?outs = "AList.update key v' outs"
      have s: "scan_keys loads (JDict d) (key # keys) outs = scan_keys loads (JDict d) keys ?outs"
        using r o p by (simp add: py_in_JDict py_item_def)
      have ok: "map_of ?outs k = Some JNull"
        using Cons.prems(3) False by (simp add: update_conv')
      have rest': "\<forall>k'\<in>set (takeWhile (\<lambda>k'. k' \<noteq> k) keys).
           map_of ?outs k' = Some JNull \<longrightarrow>
           (\<forall>r x. map_of d k' = Some r \<longrightarrow> parse_or_raw loads r \<noteq> Inl x)"
      proof
        fix k' assume m: "k' \<in> set (takeWhile (\<lambda>k'. k' \<noteq> k) keys)"
        then have "k' \<in> set keys" by (rule set_takeWhileD[THEN conjunct1])
        with nk have "k' \<noteq> key" by auto
        then have "map_of ?outs k' = map_of outs k'" by (simp add: update_conv')
        with rest m show "map_of ?outs k' = Some JNull \<longrightarrow>
           (\<forall>r x. map_of d k' = Some r \<longrightarrow> parse_or_raw loads r \<noteq> Inl x)"
          by simp
      qed
      from Cons.IH[OF dk kin ok rest'] s show ?thesis by simp
    qed
  qed
qed


lemma scan_keys_keys:
  "set keys \<subseteq> set (map fst outs) \<Longrightarrow> map fst (snd (scan_keys loads sd keys outs)) = map fst outs"
proof (induction keys arbitrary: outs)
  case Nil
  then show ?case by simp
next
  case (Cons key keys)
  then have k: "key \<in> set (map fst outs)" and ks: "set keys \<subseteq> set (map fst outs)" by auto
  have u: "\<And>v. map fst (AList.update key v outs) = map fst outs"
    using k by (simp add: update_keys)
  have "\<And>v. map fst (snd (scan_keys loads sd keys (AList.update key v outs))) = map fst outs"
    using Cons.IH[of "AList.update key v outs" for v] ks u by simp
  then show ?case
    using Cons.IH[OF ks] by (auto split: sum.splits bool.splits)
qed

lemma outputs_entry_value:
  "map_of (outputs_entry loads e outs) k = map_of outs k \<or>
   (map_of outs k = Some JNull \<and>
    (\<exists>v. resolution loads e k = Some (Inr v) \<and> map_of (outputs_entry loads e outs) k = Some v))"
proof (cases "state_delta e")
  case None
  then show ?thesis by (simp add: outputs_entry_cases)
next
  case (Some sd)
  then have "resolution loads e k =
      (case dict_field k sd of None \<Rightarrow> None | Some raw \<Rightarrow> Some (parse_or_raw loads raw))"
    by (simp add: resolution_def delta_value_def)
  with Some scan_keys_value[of loads sd "map fst outs" outs k] show ?thesis
    by (auto simp: outputs_entry_cases)
qed

lemma aborts_before_iff:
  "aborts_before loads outs e k \<longleftrightarrow>
     (\<exists>k'\<in>set (takeWhile (\<lambda>k'. k' \<noteq> k) (map fst outs)).
        map_of outs k' = Some JNull \<and> (\<exists>x. resolution loads e k' = Some (Inl x)))"
  by (auto simp: aborts_before_def list_ex_iff isl_def split: option.splits)

lemma outputs_entry_reach:
  assumes "distinct (map fst outs)" and "map_of outs k = Some JNull"
    and "delta_value e k = Some raw" and "parse_or_raw loads raw = Inr v"
    and "\<not> aborts_before loads outs e k"
  shows "map_of (outputs_entry loads e outs) k = Some v"
proof -
  from assms(3) obtain sd where sd: "state_delta e = Some sd" and f: "dict_field k sd = Some raw"
    by (auto simp: delta_value_def split: option.splits)
  from f obtain d where d: "sd = JDict d" and m: "map_of d k = Some raw"
    by (cases sd) (auto simp: dict_field_def)
  have kin: "k \<in> set (map fst outs)"
    using assms(2) by (metis map_of_eq_None_iff option.distinct(1) set_map)
  have r: "\<And>k'. resolution loads e k' =
      (case map_of d k' of None \<Rightarrow> None | Some raw \<Rightarrow> Some (parse_or_raw loads raw))"
    using sd d by (simp add: resolution_def delta_value_def dict_field_def)
  have "\<forall>k'\<in>set (takeWhile (\<lambda>k'. k' \<noteq> k) (map fst outs)).
           map_of outs k' = Some JNull \<longrightarrow>
           (\<forall>r x. map_of d k' = Some r \<longrightarrow> parse_or_raw loads r \<noteq> Inl x)"
    using assms(5) by (auto simp: aborts_before_iff r)
  from scan_keys_reach[OF assms(1) kin assms(2) m assms(4) this]
  show ?thesis by (simp add: outputs_entry_cases sd d)
qed

lemma outputs_entry_keys: "map fst (outputs_entry loads e outs) = map fst outs"
  by (simp add: outputs_entry_cases scan_keys_keys split: option.splits)

lemma scan_entries_keys: "map fst (scan_entries loads es outs) = map fst outs"
  by (induction es arbitrary: outs) (simp_all add: outputs_entry_keys)

lemma scan_entries_append:
  "scan_entries loads (xs @ ys) outs = scan_entries loads ys (scan_entries loads xs outs)"
  by (induction xs arbitrary: outs) simp_all

lemma scan_entries_keep:
  "map_of outs k = Some v \<Longrightarrow> v \<noteq> JNull \<Longrightarrow> map_of (scan_entries loads es outs) k = Some v"
proof (induction es arbitrary: outs)
  case Nil
  then show ?case by simp
next
  case (Cons e es)
  then have "map_of (outputs_entry loads e outs) k = Some v"
    using outputs_entry_value[of loads e outs k] by auto
  with Cons show ?case by simp
qed

lemma scan_entries_open:
  "map_of outs k = Some JNull \<Longrightarrow>
   \<forall>x\<in>set es. \<forall>v. resolution loads x k = Some (Inr v) \<longrightarrow> v = JNull \<Longrightarrow>
   map_of (scan_entries loads es outs) k = Some JNull"
proof (induction es arbitrary: outs)
  case Nil
  then show ?case by simp
next
  case (Cons e es)
  then have "map_of (outputs_entry loads e outs) k = Some JNull"
    using outputs_entry_value[of loads e outs k] by auto
  with Cons show ?case by simp
qed

lemma extract_all_list:
  "extract_all_agent_outputs loads (JList es) = scan_entries loads es initial_outputs"
  by (simp add: extract_all_agent_outputs_def all_agent_outputs_try_def py_iter_def)

lemma initial_outputs_null:
  "k \<in> set (map fst initial_outputs) \<Longrightarrow> map_of initial_outputs k = Some JNull"
  by (auto simp: initial_outputs_def)

lemma initial_outputs_distinct: "distinct (map fst initial_outputs)"
  by (simp add: initial_outputs_def)

lemma first_store_wins:
  assumes "map_of (extract_all_agent_outputs loads (JList earlier)) k = Some JNull"
    and "delta_value e k = Some raw" and "parse_or_raw loads raw = Inr v" and "v \<noteq> JNull"
    and "\<not> aborts_before loads (extract_all_agent_outputs loads (JList earlier)) e k"
  shows "map_of (extract_all_agent_outputs loads (JList (earlier @ e # later))) k = Some v"
proof -
  let ?outs = "scan_entries loads earlier initial_outputs"
  have d: "distinct (map fst ?outs)"
    by (simp add: scan_entries_keys initial_outputs_distinct)
  have "map_of (outputs_entry loads e ?outs) k = Some v"
    using assms by (intro outputs_entry_reach[OF d]) (simp_all add: extract_all_list)
  then show ?thesis
    using assms(4) by (simp add: extract_all_list scan_entries_append scan_entries_keep)
qed

lemma dict_field_on_dict_map_entry:
  "dict_field k (on_dict (AList.map_entry k' f) j) =
     (if k = k' then map_option f (dict_field k j) else dict_field k j)"
  by (cases j) (auto simp: on_dict_def dict_field_def map_of_map_entry split: option.splits)

lemma state_delta_keep_registered:
  "state_delta (keep_registered e) =
     map_option (on_dict (AList.restrict (set (map fst initial_outputs)))) (state_delta e)"
  by (cases "dict_field ''actions'' e")
     (simp_all add: state_delta_def keep_registered_def dict_field_on_dict_map_entry)

lemma scan_keys_restrict:
  "set keys \<subseteq> R \<Longrightarrow>
   scan_keys loads (on_dict (AList.restrict R) sd) keys outs = scan_keys loads sd keys outs"
proof (induction keys arbitrary: outs)
  case Nil
  then show ?case by simp
next
  case (Cons key keys)
  then have k: "key \<in> R" by simp
  have i: "py_in key (on_dict (AList.restrict R) sd) = py_in key sd"
    using k by (cases sd) (simp_all add: on_dict_def py_in_JDict restr_conv')
  have g: "py_item (on_dict (AList.restrict R) sd) key = py_item sd key"
    using k by (cases sd) (simp_all add: on_dict_def py_item_def restr_conv')
  from Cons show ?case by (simp add: i g split: sum.splits bool.splits)
qed

lemma outputs_entry_keep_registered:
  "set (map fst outs) \<subseteq> set (map fst initial_outputs) \<Longrightarrow>
   outputs_entry loads (keep_registered e) outs = outputs_entry loads e outs"
  by (cases "state_delta e")
     (simp_all add: outputs_entry_cases state_delta_keep_registered scan_keys_restrict)

lemma scan_entries_keep_registered:
  "set (map fst outs) \<subseteq> set (map fst initial_outputs) \<Longrightarrow>
   scan_entries loads (map keep_registered es) outs = scan_entries loads es outs"
proof (induction es arbitrary: outs)
  case Nil
  then show ?case by simp
next
  case (Cons e es)
  have "set (map fst (outputs_entry loads e outs)) \<subseteq> set (map fst initial_outputs)"
    using Cons.prems by (simp only: outputs_entry_keys)
  with Cons show ?case
    by (simp add: outputs_entry_keep_registered)
qed






lemma starts_with_append: "starts_with (p @ q) s \<Longrightarrow> starts_with p s"
  by (induction p s rule: starts_with.induct) auto

lemma starts_with_self: "starts_with p (p @ r)"
  by (induction p) auto

lemma contains_append: "contains (p @ q) s \<Longrightarrow> contains p s"
  by (induction s) (auto dest: starts_with_append)

lemma match_here_opening: "match_here s = Some g \<Longrightarrow> starts_with ''```json'' s"
  by (simp add: match_here_def split: if_splits)

lemma fence_search_opening: "fence_search s = Some g \<Longrightarrow> contains ''```json'' s"
proof (induction s)
  case Nil
  then show ?case by (simp add: match_here_def)
next
  case (Cons c cs)
  then show ?case
    by (cases "match_here (c # cs)") (auto dest: match_here_opening simp del: starts_with.simps)
qed

lemma fence_search_no_marker: "\<not> contains ''```'' s \<Longrightarrow> fence_search s = None"
proof -
  assume n: "\<not> contains ''```'' s"
  have "\<not> contains (''```'' @ ''json'') s"
    using n contains_append by blast
  then have "\<not> contains ''```json'' s" by simp
  then show ?thesis
    by (cases "fence_search s") (auto dest: fence_search_opening)
qed

lemma last_close_None_iff: "last_close s = None \<longleftrightarrow> \<not> contains ''\<newline>```'' s"
  by (induction s) (auto split: option.splits)

lemma last_close_body:
  "\<not> contains ''\<newline>```'' post \<Longrightarrow> last_close (body @ ''\<newline>```'' @ post) = Some body"
proof (induction body)
  case Nil
  then have "last_close post = None" by (simp add: last_close_None_iff)
  then show ?case by simp
next
  case (Cons c body)
  then show ?case by simp
qed

lemma after_open_backticks: "\<not> contains ''\<newline>```'' post \<Longrightarrow> after_open (''\<newline>```'' @ post) = None"
proof -
  assume "\<not> contains ''\<newline>```'' post"
  then have "last_close post = None" by (simp add: last_close_None_iff)
  then show ?thesis by (simp add: is_space_def)
qed

lemma after_open_body_None:
  "CHR ''\<newline>'' \<notin> set (takeWhile is_space body) \<Longrightarrow> \<not> contains ''\<newline>```'' post \<Longrightarrow>
   after_open (body @ ''\<newline>```'' @ post) = None"
proof (induction body)
  case Nil
  then show ?case using after_open_backticks[of post] by simp
next
  case (Cons c body)
  then show ?case by (cases "is_space c") auto
qed

lemma after_open_body:
  assumes ws: "\<forall>c\<in>set ws. is_space c"
    and body: "CHR ''\<newline>'' \<notin> set (takeWhile is_space body)"
    and post: "\<not> contains ''\<newline>```'' post"
  shows "after_open (ws @ ''\<newline>'' @ body @ ''\<newline>```'' @ post) = Some body"
  using ws
proof (induction ws)
  case Nil
  have "is_space (CHR ''\<newline>'')" by (simp add: is_space_def)
  then show ?case
    using after_open_body_None[OF body post] last_close_body[OF post, of body] by simp
next
  case (Cons w ws)
  then show ?case by simp
qed

lemma match_here_open: "match_here (''```json'' @ r) = after_open r"
  by (simp add: match_here_def)

lemma fence_search_first_open:
  assumes "\<forall>i<length pre. \<not> starts_with ''```json'' (drop i (pre @ ''```json'' @ r))"
    and "after_open r = Some g"
  shows "fence_search (pre @ ''```json'' @ r) = Some g"
  using assms(1)
proof (induction pre)
  case Nil
  have "fence_search (''```json'' @ r) = Some g"
    using match_here_open[of r] assms(2) by simp
  then show ?case by simp
next
  case (Cons c pre)
  from Cons.prems have "\<not> starts_with ''```json'' (drop 0 ((c # pre) @ ''```json'' @ r))"
    by blast
  then have "\<not> starts_with ''```json'' (c # pre @ ''```json'' @ r)"
    by (simp del: starts_with.simps)
  then have m: "match_here (c # pre @ ''```json'' @ r) = None"
    by (simp only: match_here_def if_False)
  have "\<forall>i<length pre. \<not> starts_with ''```json'' (drop i (pre @ ''```json'' @ r))"
  proof (intro allI impI)
    fix i assume "i < length pre"
    then have "Suc i < length (c # pre)" by simp
    with Cons.prems have "\<not> starts_with ''```json'' (drop (Suc i) ((c # pre) @ ''```json'' @ r))"
      by blast
    then show "\<not> starts_with ''```json'' (drop i (pre @ ''```json'' @ r))"
      by (simp del: starts_with.simps)
  qed
  with Cons.IH have "fence_search (pre @ ''```json'' @ r) = Some g" by blast
  with m show ?case by (simp del: starts_with.simps)
qed

lemma fence_search_greedy:
  assumes "\<forall>i<length pre. \<not> starts_with ''```json''
              (drop i (pre @ ''```json'' @ ws @ ''\<newline>'' @ body @ ''\<newline>```'' @ post))"
    and "\<forall>c\<in>set ws. is_space c"
    and "CHR ''\<newline>'' \<notin> set (takeWhile is_space body)"
    and "\<not> contains ''\<newline>```'' post"
  shows "fence_search (pre @ ''```json'' @ ws @ ''\<newline>'' @ body @ ''\<newline>```'' @ post) = Some body"
  using fence_search_first_open[OF assms(1) after_open_body[OF assms(2,3,4)]] .

lemma scan_parts_calls:
  "scan_parts i au parts calls =
     (fst (scan_parts i au parts []), calls @ snd (scan_parts i au parts []))"
proof (induction parts arbitrary: calls)
  case Nil
  then show ?case by simp
next
  case (Cons part parts)
  show ?case
  proof (cases "py_in ''functionCall'' part")
    case (Inl x)
    then show ?thesis by simp
  next
    case (Inr b)
    show ?thesis
    proof (cases b)
      case False
      with Inr Cons.IH[of calls] show ?thesis by simp
    next
      case True
      show ?thesis
      proof (cases "and_then (py_item part ''functionCall'') (\<lambda>fc. py_get fc ''name'' (JStr ''unknown''))")
        case (Inl x)
        with Inr True show ?thesis by simp
      next
        case fn: (Inr fname)
        let ?c = "\<lparr>entry_index = i, function_name = fname, call_author = au\<rparr>"
        from Cons.IH[of "calls @ [?c]"] Cons.IH[of "[?c]"] Inr True fn
        show ?thesis by simp
      qed
    qed
  qed
qed

lemma final_output_check_decomp:
  "final_output_check au e s =
     s\<lparr>final_output_found := final_output_found s \<or> final_output_found (final_output_check au e empty_summary)\<rparr>"
  by (simp add: final_output_check_def empty_summary_def split: sum.splits bool.splits)

lemma final_output_check_fields:
  "authors (final_output_check au e s) = authors s"
  "agent_calls (final_output_check au e s) = agent_calls s"
  "total_entries (final_output_check au e s) = total_entries s"
  by (simp_all add: final_output_check_def split: sum.splits bool.splits)

lemma final_output_check_flag:
  "final_output_found (final_output_check au e s) =
     (final_output_found s \<or> final_output_guard au e = Inr True)"
  by (auto simp: final_output_check_def split: sum.splits bool.splits)

lemma summary_entry_decomp:
  "summary_entry i e s =
     s\<lparr>authors := authors s @ authors (entry_summary i e),
       agent_calls := agent_calls s @ agent_calls (entry_summary i e),
       final_output_found := final_output_found s \<or> final_output_found (entry_summary i e)\<rparr>"
proof (cases "py_get e ''author'' (JStr ''unknown'')")
  case (Inl x)
  then show ?thesis
    by (simp add: summary_entry_def entry_summary_def empty_summary_def)
next
  case au: (Inr au)
  show ?thesis
  proof (cases "and_also (py_in ''content'' e) (and_then (py_item e ''content'') (py_in ''parts''))")
    case (Inl x)
    with au show ?thesis
      by (simp add: summary_entry_def entry_summary_def empty_summary_def)
  next
    case g: (Inr b)
    show ?thesis
    proof (cases b)
      case False
      with au g show ?thesis
        by (simp add: summary_entry_def entry_summary_def empty_summary_def
            final_output_check_fields final_output_check_flag
            summary.equality)
    next
      case True
      show ?thesis
      proof (cases "and_then (and_then (py_item e ''content'') (\<lambda>content. py_item content ''parts'')) py_iter")
        case (Inl x)
        with au g True show ?thesis
          by (simp add: summary_entry_def entry_summary_def empty_summary_def)
      next
        case p: (Inr parts)
        obtain x cs where sp: "scan_parts i au parts [] = (x, cs)"
          by (cases "scan_parts i au parts []")
        then have sp': "scan_parts i au parts (agent_calls s) = (x, agent_calls s @ cs)"
          using scan_parts_calls[of i au parts "agent_calls s"] by simp
        from au g True p sp sp' show ?thesis
          by (cases x)
             (simp_all add: summary_entry_def entry_summary_def empty_summary_def
                final_output_check_fields final_output_check_flag summary.equality)
      qed
    qed
  qed
qed

lemma summary_entry_total: "total_entries (summary_entry i e s) = total_entries s"
  by (subst summary_entry_decomp) simp

lemma scan_summary_decomp:
  "scan_summary i es s =
     s\<lparr>authors := authors s @ concat (map (\<lambda>(j, e). authors (entry_summary j e)) (enumerate i es)),
       agent_calls := agent_calls s @ concat (map (\<lambda>(j, e). agent_calls (entry_summary j e)) (enumerate i es)),
       final_output_found := final_output_found s \<or>
          list_ex (\<lambda>(j, e). final_output_found (entry_summary j e)) (enumerate i es)\<rparr>"
proof (induction es arbitrary: i s)
  case Nil
  then show ?case by simp
next
  case (Cons e es)
  have "scan_summary i (e # es) s = scan_summary (Suc i) es (summary_entry i e s)" by simp
  also have "\<dots> = scan_summary (Suc i) es
     (s\<lparr>authors := authors s @ authors (entry_summary i e),
       agent_calls := agent_calls s @ agent_calls (entry_summary i e),
       final_output_found := final_output_found s \<or> final_output_found (entry_summary i e)\<rparr>)"
    by (subst summary_entry_decomp) simp
  finally show ?case
    by (simp add: Cons.IH)
qed

lemma entry_summary_authors:
  "authors (entry_summary i e) = (if is_record e then [author_or_unknown e] else [])"
proof (cases e)
  case (JDict kvs)
  then have au: "py_get e ''author'' (JStr ''unknown'') = Inr (author_or_unknown e)"
    by (simp add: py_get_def author_or_unknown_def dict_field_def)
  from JDict have r: "is_record e" by (simp add: is_record_def)
  show ?thesis
    by (simp add: r entry_summary_def summary_entry_def au empty_summary_def Let_def
        final_output_check_fields split: sum.splits bool.splits prod.splits option.splits)
qed (simp_all add: entry_summary_def summary_entry_def py_get_def is_record_def empty_summary_def)

lemma concat_entry_authors:
  "concat (map (\<lambda>(j, e). authors (entry_summary j e)) (enumerate i es)) =
     map author_or_unknown (filter is_record es)"
  by (induction es arbitrary: i) (simp_all add: entry_summary_authors)

lemma conversation_summary_list:
  "conversation_summary_try (JList es) =
     Inr (scan_summary 0 es \<lparr>total_entries = length es, authors = [], agent_calls = [],
               final_output_found = False\<rparr>)"
  by (simp add: conversation_summary_try_def py_len_def py_iter_def)

lemma extract_summary_list:
  "extract_conversation_summary (JList es) =
     Some \<lparr>total_entries = length es,
           authors = concat (map (\<lambda>(i, e). authors (entry_summary i e)) (enumerate 0 es)),
           agent_calls = concat (map (\<lambda>(i, e). agent_calls (entry_summary i e)) (enumerate 0 es)),
           final_output_found =
             list_ex (\<lambda>(i, e). final_output_found (entry_summary i e)) (enumerate 0 es)\<rparr>"
  by (simp add: extract_conversation_summary_def conversation_summary_list)
     (subst scan_summary_decomp, simp)

lemma decode_strict_parse_or_raw:
  "decode_strict loads raw = Some v \<Longrightarrow> parse_or_raw loads raw = Inr v"
  by (cases raw) (auto simp: decode_strict_def parse_or_raw_def split: option.splits sum.splits)

lemma decode_strict_no_marker: "\<not> contains ''```'' s \<Longrightarrow> decode_strict loads (JStr s) = None"
  by (simp add: decode_strict_def fence_search_no_marker)



lemma coordinator_value_delta:
  "delta_value x ''financial_coordinator_output'' = None \<Longrightarrow> coordinator_value x = None"
  by (simp add: coordinator_value_def)

lemma coordinator_value_SomeD:
  "coordinator_value e = Some raw \<Longrightarrow> delta_value e ''financial_coordinator_output'' = Some raw"
  by (simp add: coordinator_value_def split: if_splits)

lemma extract_fc_all_undecoded:
  "\<forall>x\<in>set es. coordinator_decoded loads x = None \<Longrightarrow>
   extract_financial_coordinator_output loads (JList es) = JNull"
  using scan_reversed_skip[of "rev es" loads "[]"] by (simp add: extract_fc_list)

lemma extract_fc_last_decoded:
  assumes "\<forall>x\<in>set later. coordinator_decoded loads x = None"
  shows "extract_financial_coordinator_output loads (JList (earlier @ e # later)) =
     (case coordinator_decoded loads e of
        Some v \<Rightarrow> v
      | None \<Rightarrow> extract_financial_coordinator_output loads (JList earlier))"
proof -
  have s: "scan_reversed loads (rev later @ e # rev earlier) = scan_reversed loads (e # rev earlier)"
    using assms by (intro scan_reversed_skip) simp
  show ?thesis
  proof (cases "coordinator_decoded loads e")
    case None
    then show ?thesis
      using s scan_reversed_skip[of "[e]" loads "rev earlier"] by (simp add: extract_fc_list)
  next
    case (Some v)
    then show ?thesis
      using s scan_reversed_hit[OF Some, of "rev earlier"] by (simp add: extract_fc_list)
  qed
qed

lemma takeWhile_replicate_append:
  "P c \<Longrightarrow> takeWhile P (replicate n c @ ys) = replicate n c @ takeWhile P ys"
  by (induction n) simp_all

lemma dropWhile_replicate_append:
  "P c \<Longrightarrow> dropWhile P (replicate n c @ ys) = dropWhile P ys"
  by (induction n) simp_all

lemma scan_int_long:
  "takeWhile is_digit rest = [] \<Longrightarrow> scan_int (long_integer @ rest) = Some (long_integer, rest)"
proof -
  assume r: "takeWhile is_digit rest = []"
  have d: "is_digit (CHR ''1'')" by (simp add: is_digit_def)
  have t: "takeWhile is_digit (replicate 4300 (CHR ''1'') @ rest) = replicate 4300 (CHR ''1'')"
    using r d by (simp add: takeWhile_replicate_append)
  have "dropWhile is_digit rest = rest"
    using r by (metis takeWhile_dropWhile_id append_Nil)
  then have dr: "dropWhile is_digit (replicate 4300 (CHR ''1'') @ rest) = rest"
    using d by (simp add: dropWhile_replicate_append)
  show ?thesis
    by (simp add: scan_int_def long_integer_def d t dr)
qed

lemma parse_number_long:
  assumes "takeWhile is_digit rest = []" and "scan_frac rest = ([], rest)"
    and "scan_exp rest = ([], rest)"
  shows "parse_number (long_integer @ rest) = Some (Inl ValueError)"
proof -
  have "literal_digits long_integer = long_integer"
    by (simp add: literal_digits_def long_integer_def)
  moreover have "length long_integer = 4301" by (simp add: long_integer_def)
  ultimately show ?thesis
    by (simp add: parse_number_def scan_int_long[OF assms(1)] assms(2,3))
qed

lemma parse_value_long:
  assumes "takeWhile is_digit rest = []" and "scan_frac rest = ([], rest)"
    and "scan_exp rest = ([], rest)"
  shows "parse_value (Suc m) (long_integer @ rest) = Inl ValueError"
proof -
  have e: "long_integer @ rest = CHR ''1'' # (replicate 4300 (CHR ''1'') @ rest)"
    by (simp add: long_integer_def)
  have "parse_number (CHR ''1'' # (replicate 4300 (CHR ''1'') @ rest)) = Some (Inl ValueError)"
    using parse_number_long[OF assms] unfolding e .
  then show ?thesis
    unfolding e by simp
qed

lemma json_loads_long:
  assumes "takeWhile is_digit rest = []" and "scan_frac rest = ([], rest)"
    and "scan_exp rest = ([], rest)"
  shows "json_loads (long_integer @ rest) = Inl ValueError"
proof -
  have "skip_ws (long_integer @ rest) = long_integer @ rest"
    by (simp add: skip_ws_def long_integer_def json_space_def)
  then show ?thesis
    using parse_value_long[OF assms] by (simp add: json_loads_def)
qed

lemma fence_search_fenced:
  "CHR ''\<newline>'' \<notin> set (takeWhile is_space body) \<Longrightarrow> fence_search (fenced body) = Some body"
  using fence_search_greedy[of "[]" "[]" body "[]"] by (simp add: fenced_def)

lemma py_strip_long:
  assumes "rest = [] \<or> \<not> is_space (last rest)"
  shows "py_strip (long_integer @ rest) = long_integer @ rest"
proof -
  have h: "\<not> is_space (CHR ''1'')" by (simp add: is_space_def)
  have a: "dropWhile is_space (long_integer @ rest) = long_integer @ rest"
    using h by (simp add: long_integer_def)
  have "\<not> is_space (hd (rev (long_integer @ rest)))"
    using assms h by (cases "rest = []") (simp_all add: long_integer_def hd_rev)
  then have "dropWhile is_space (rev (long_integer @ rest)) = rev (long_integer @ rest)"
    by (cases "rev (long_integer @ rest)") simp_all
  with a show ?thesis by (simp add: py_strip_def)
qed

lemma parse_or_raw_long_integer:
  "parse_or_raw json_loads (JStr (fenced long_integer)) = Inl ValueError"
proof -
  have t: "takeWhile is_space long_integer = []" by (simp add: long_integer_def is_space_def)
  have f: "fence_search (fenced long_integer) = Some long_integer"
    by (rule fence_search_fenced) (simp add: t)
  have s: "py_strip long_integer = long_integer"
    using py_strip_long[of "[]"] by simp
  have j: "json_loads long_integer = Inl ValueError"
    using json_loads_long[of "[]"] by (simp add: scan_frac_def scan_exp_def)
  show ?thesis by (simp add: parse_or_raw_def f s j)
qed


section \<open>The claims\<close>

subsection \<open>Most recent decodable event (C1)\<close>

text \<open>
  Claim C1, amended. \<open>extract_financial_coordinator_output\<close> scans from the most
  recent entry backwards and returns the decoded value of the first event that matches
  (author \<open>financial_coordinator\<close>, key \<open>financial_coordinator_output\<close> in
  \<^verbatim>\<open>actions.stateDelta\<close>) and decodes. When no entry after \<open>e\<close> decodes, the
  result is the decoded value of \<open>e\<close>; when \<open>e\<close> does not decode either, matching or
  not, the scan goes on and the result is that of the entries before \<open>e\<close>. A trace in
  which no entry decodes gives \<open>None\<close>.
\<close>

theorem targeted_most_recent_decodable:
  assumes "\<forall>x\<in>set later. coordinator_decoded loads x = None"
  shows "extract_financial_coordinator_output loads (JList (earlier @ e # later)) =
           (case coordinator_decoded loads e of
              Some v \<Rightarrow> v
            | None \<Rightarrow> extract_financial_coordinator_output loads (JList earlier))
         \<and> extract_financial_coordinator_output loads (JList later) = JNull"
  using assms extract_fc_last_decoded[OF assms] extract_fc_all_undecoded[of later loads]
  by simp

text \<open>
  An instance: the two most recent events match but do not decode (malformed JSON in the
  fence, then text without a fence); the event before them is returned.
\<close>

theorem targeted_most_recent_decodable_witness:
  "coordinator_decoded json_loads broken_json_event = None
   \<and> coordinator_decoded json_loads plain_event = None
   \<and> coordinator_decoded json_loads score_event = Some (JDict [(''score'', JInt 42)])
   \<and> extract_financial_coordinator_output json_loads
         (JList ([first_event] @ score_event # [broken_json_event, plain_event]))
       = JDict [(''score'', JInt 42)]
   \<and> extract_financial_coordinator_output json_loads (JList [broken_json_event, plain_event])
       = JNull"
proof -
  have b: "coordinator_decoded json_loads broken_json_event = None" by code_simp
  have p: "coordinator_decoded json_loads plain_event = None" by code_simp
  have d: "coordinator_decoded json_loads score_event = Some (JDict [(''score'', JInt 42)])"
    by code_simp
  have h: "\<forall>x\<in>set [broken_json_event, plain_event]. coordinator_decoded json_loads x = None"
    using b p by simp
  show ?thesis
    using b p d targeted_most_recent_decodable[OF h, of "[first_event]" score_event] by simp
qed

text \<open>
  Claim C1 as stated fails. The most recent matching event of
  \<open>[score_event, plain_event]\<close> holds text without a fenced block; the function does
  not return \<open>None\<close> but the payload of the earlier matching event.
\<close>

theorem fallback_to_earlier_event:
  "coordinator_value plain_event = Some (JStr ''no fence here'')
   \<and> decode_strict json_loads (JStr ''no fence here'') = None
   \<and> extract_financial_coordinator_output json_loads (JList [score_event, plain_event])
       = JDict [(''score'', JInt 42)]"
  by code_simp

subsection \<open>Extent of the fenced block (C2)\<close>

text \<open>
  Claim C2, amended. In a text whose first opening marker \<^verbatim>\<open>```json\<close> is followed by
  white space \<open>ws\<close> and a line feed, the group captured runs from that line feed to
  the last closing marker (a line feed and three backquotes) of the text: \<open>body\<close> may
  itself hold closing and opening markers, and \<open>post\<close>, the text after the last
  closing marker, holds none. (\<open>body\<close> has no line feed within its leading white
  space, so that the line feed after \<open>ws\<close> is the one the expression matches.)
\<close>

theorem fence_search_to_last_close:
  assumes "\<forall>i<length pre. \<not> starts_with ''```json''
              (drop i (pre @ ''```json'' @ ws @ ''\<newline>'' @ body @ ''\<newline>```'' @ post))"
    and "\<forall>c\<in>set ws. is_space c"
    and "CHR ''\<newline>'' \<notin> set (takeWhile is_space body)"
    and "\<not> contains ''\<newline>```'' post"
  shows "fence_search (pre @ ''```json'' @ ws @ ''\<newline>'' @ body @ ''\<newline>```'' @ post) = Some body"
  using assms by (rule fence_search_greedy)

text \<open>
  An instance with two fenced blocks between a prefix and a suffix: the group is
  everything between the first opening and the last closing marker.
\<close>

theorem fence_search_to_last_close_witness:
  \<open>\<not> starts_with ''```json'' (''ok: ```json \<newline>{"a": 1}\<newline>```\<newline>```json\<newline>2\<newline>``` bye'')
   \<and> \<not> starts_with ''```json'' (''k: ```json \<newline>{"a": 1}\<newline>```\<newline>```json\<newline>2\<newline>``` bye'')
   \<and> \<not> starts_with ''```json'' ('': ```json \<newline>{"a": 1}\<newline>```\<newline>```json\<newline>2\<newline>``` bye'')
   \<and> \<not> starts_with ''```json'' ('' ```json \<newline>{"a": 1}\<newline>```\<newline>```json\<newline>2\<newline>``` bye'')
   \<and> is_space (CHR '' '')
   \<and> CHR ''\<newline>'' \<notin> set (takeWhile is_space ''{"a": 1}\<newline>```\<newline>```json\<newline>2'')
   \<and> \<not> contains ''\<newline>```'' '' bye''
   \<and> fence_search ''ok: ```json \<newline>{"a": 1}\<newline>```\<newline>```json\<newline>2\<newline>``` bye''
       = Some ''{"a": 1}\<newline>```\<newline>```json\<newline>2''\<close>
proof -
  have h1: \<open>\<forall>i<length ''ok: ''. \<not> starts_with ''```json''
        (drop i (''ok: '' @ ''```json'' @ '' '' @ ''\<newline>'' @ ''{"a": 1}\<newline>```\<newline>```json\<newline>2''
                  @ ''\<newline>```'' @ '' bye''))\<close>
    by (simp add: All_less_Suc)
  have h2: "\<forall>c\<in>set '' ''. is_space c" by (simp add: is_space_def)
  have h3: \<open>CHR ''\<newline>'' \<notin> set (takeWhile is_space ''{"a": 1}\<newline>```\<newline>```json\<newline>2'')\<close>
    by (simp add: is_space_def)
  have h4: "\<not> contains ''\<newline>```'' '' bye''" by simp
  show ?thesis
    using h2 h3 h4 fence_search_to_last_close[OF h1 h2 h3 h4] by simp
qed

text \<open>
  Claim C2 as stated fails. For a text of two fenced blocks with the bodies \<open>1\<close> and
  \<open>2\<close> the group is not the body of the first block: it runs on to the closing
  marker of the second.
\<close>

theorem greedy_capture_two_blocks:
  "fence_search two_fenced_blocks = Some ''1\<newline>```\<newline>```json\<newline>2''
   \<and> fence_search two_fenced_blocks \<noteq> Some ''1''"
  by code_simp

subsection \<open>First stored value (C3)\<close>

text \<open>
  Claim C3, amended. Let a registry key still be \<open>None\<close> after the events before
  \<open>e\<close>, let the \<^verbatim>\<open>stateDelta\<close> of \<open>e\<close> hold the key with a value for which lines
  91 to 102 yield \<open>v\<close>, not \<open>None\<close>, and let the key loop of \<open>e\<close> come to the key
  (\<open>loads\<close> raises nothing but \<^verbatim>\<open>JSONDecodeError\<close> on the values of \<open>e\<close> under
  the keys listed before it that are still \<open>None\<close>). Then the key holds \<open>v\<close> once
  \<open>e\<close> has been scanned, and still holds it at the end, whatever the later events are.
\<close>

theorem first_nonnull_value_kept:
  assumes "map_of (extract_all_agent_outputs loads (JList earlier)) k = Some JNull"
    and "delta_value e k = Some raw" and "parse_or_raw loads raw = Inr v" and "v \<noteq> JNull"
    and "\<not> aborts_before loads (extract_all_agent_outputs loads (JList earlier)) e k"
  shows "map_of (extract_all_agent_outputs loads (JList (earlier @ [e]))) k = Some v
         \<and> map_of (extract_all_agent_outputs loads (JList (earlier @ e # later))) k = Some v"
  using first_store_wins[OF assms, of "[]"] first_store_wins[OF assms, of later]
  by simp

text \<open>
  An instance: an event without the key and an event storing \<open>None\<close> come first; the
  text of the third event is kept, a later value \<open>7\<close> for the same key is ignored.
\<close>

theorem first_nonnull_value_kept_witness:
  "map_of (extract_all_agent_outputs json_loads (JList [score_event, null_value_event]))
        ''data_analyst_output'' = Some JNull
   \<and> delta_value text_value_event ''data_analyst_output'' = Some (JStr ''second'')
   \<and> parse_or_raw json_loads (JStr ''second'') = Inr (JStr ''second'')
   \<and> JStr ''second'' \<noteq> JNull
   \<and> \<not> aborts_before json_loads
          (extract_all_agent_outputs json_loads (JList [score_event, null_value_event]))
          text_value_event ''data_analyst_output''
   \<and> map_of (extract_all_agent_outputs json_loads
         (JList ([score_event, null_value_event] @ [text_value_event])))
        ''data_analyst_output'' = Some (JStr ''second'')
   \<and> map_of (extract_all_agent_outputs json_loads
         (JList ([score_event, null_value_event] @ text_value_event # [extra_key_event])))
        ''data_analyst_output'' = Some (JStr ''second'')"
proof -
  have h1: "map_of (extract_all_agent_outputs json_loads (JList [score_event, null_value_event]))
        ''data_analyst_output'' = Some JNull"
    by code_simp
  have h2: "delta_value text_value_event ''data_analyst_output'' = Some (JStr ''second'')"
    by code_simp
  have h3: "parse_or_raw json_loads (JStr ''second'') = Inr (JStr ''second'')" by code_simp
  have h4: "JStr ''second'' \<noteq> JNull" by simp
  have h5: "\<not> aborts_before json_loads
          (extract_all_agent_outputs json_loads (JList [score_event, null_value_event]))
          text_value_event ''data_analyst_output''"
    by code_simp
  show ?thesis
    using h1 h2 h3 h4 h5 first_nonnull_value_kept[OF h1 h2 h3 h4 h5, of "[extra_key_event]"]
    by blast
qed

text \<open>
  Claim C3 as stated fails, in two ways. The first event of the first trace stores a
  value for \<open>data_analyst_output\<close>, the value \<open>None\<close> of its \<^verbatim>\<open>stateDelta\<close>; the
  test \<^verbatim>\<open>outputs[key] is None\<close> then lets the later event overwrite the key. In the
  second trace the only event holds \<open>trading_analyst_output\<close>, but \<^verbatim>\<open>json.loads\<close>
  raises \<^verbatim>\<open>ValueError\<close> on the value of the key listed before it: the key loop is left
  and the key stays \<open>None\<close>.
\<close>

theorem null_value_overwritten:
  "resolution json_loads null_value_event ''data_analyst_output'' = Some (Inr JNull)
   \<and> map_of (extract_all_agent_outputs json_loads (JList [null_value_event]))
        ''data_analyst_output'' = Some JNull
   \<and> map_of (extract_all_agent_outputs json_loads (JList [null_value_event, text_value_event]))
        ''data_analyst_output'' = Some (JStr ''second'')
   \<and> resolution json_loads long_integer_event ''trading_analyst_output''
        = Some (Inr (JStr ''t''))
   \<and> map_of (extract_all_agent_outputs json_loads (JList [long_integer_event]))
        ''trading_analyst_output'' = Some JNull"
proof -
  have a: "resolution json_loads null_value_event ''data_analyst_output'' = Some (Inr JNull)
   \<and> map_of (extract_all_agent_outputs json_loads (JList [null_value_event]))
        ''data_analyst_output'' = Some JNull
   \<and> map_of (extract_all_agent_outputs json_loads (JList [null_value_event, text_value_event]))
        ''data_analyst_output'' = Some (JStr ''second'')"
    by code_simp
  have sd: "state_delta long_integer_event =
      Some (JDict [(''data_analyst_output'', JStr (fenced long_integer)),
                   (''trading_analyst_output'', JStr ''t'')])"
    by (simp add: long_integer_event_def state_delta_def dict_field_def)
  have t: "parse_or_raw json_loads (JStr ''t'') = Inr (JStr ''t'')" by code_simp
  have b: "resolution json_loads long_integer_event ''trading_analyst_output''
        = Some (Inr (JStr ''t''))"
    by (simp add: resolution_def delta_value_def sd dict_field_def t)
  have c: "extract_all_agent_outputs json_loads (JList [long_integer_event]) = initial_outputs"
    by (simp add: extract_all_list outputs_entry_cases sd initial_outputs_def py_in_JDict
        py_item_def parse_or_raw_long_integer)
  from a b c show ?thesis by (simp add: initial_outputs_def)
qed

subsection \<open>Two coordinator events (C4)\<close>

text \<open>
  Claim C4, amended. Let two events by the coordinator, \<open>e1\<close> before \<open>e2\<close>, hold
  \<open>financial_coordinator_output\<close> with values that decode, the earlier one not to
  \<open>None\<close>. Let no event after \<open>e2\<close> match and decode (none matches, when the two
  are the only matching events), let the key still be \<open>None\<close> after the events before
  \<open>e1\<close> (none of them, whoever its author, has stored a value for it), and let the key
  loop of \<open>e1\<close> come to the key. Then \<open>extract_financial_coordinator_output\<close>
  returns the content of \<open>e2\<close> and \<open>extract_all_agent_outputs\<close> holds the content
  of \<open>e1\<close> under the key.
\<close>

theorem later_for_targeted_earlier_for_aggregate:
  assumes "coordinator_value e1 = Some raw1" and "decode_strict loads raw1 = Some v1"
    and "v1 \<noteq> JNull"
    and "coordinator_value e2 = Some raw2" and "decode_strict loads raw2 = Some v2"
    and "\<forall>x\<in>set c. coordinator_decoded loads x = None"
    and "map_of (extract_all_agent_outputs loads (JList a)) ''financial_coordinator_output''
           = Some JNull"
    and "\<not> aborts_before loads (extract_all_agent_outputs loads (JList a)) e1
             ''financial_coordinator_output''"
  shows "extract_financial_coordinator_output loads (JList (a @ e1 # b @ e2 # c)) = v2
         \<and> map_of (extract_all_agent_outputs loads (JList (a @ e1 # b @ e2 # c)))
              ''financial_coordinator_output'' = Some v1"
proof -
  have d2: "coordinator_decoded loads e2 = Some v2"
    using assms(4,5) by (simp add: coordinator_decoded_def)
  from extract_fc_last_decoded[OF assms(6), of "a @ e1 # b" e2]
  have t: "extract_financial_coordinator_output loads (JList (a @ e1 # b @ e2 # c)) = v2"
    using d2 by simp
  have dv: "delta_value e1 ''financial_coordinator_output'' = Some raw1"
    using assms(1) by (rule coordinator_value_SomeD)
  have p: "parse_or_raw loads raw1 = Inr v1"
    using assms(2) by (rule decode_strict_parse_or_raw)
  from first_store_wins[OF assms(7) dv p assms(3) assms(8), of "b @ e2 # c"] t
  show ?thesis by simp
qed

text \<open>
  An instance, with three other entries around the two events.
\<close>

theorem later_for_targeted_earlier_for_aggregate_witness:
  "coordinator_value first_event = Some (JStr (fenced ''1''))
   \<and> decode_strict json_loads (JStr (fenced ''1'')) = Some (JInt 1)
   \<and> JInt 1 \<noteq> JNull
   \<and> coordinator_value second_event = Some (JStr (fenced ''2''))
   \<and> decode_strict json_loads (JStr (fenced ''2'')) = Some (JInt 2)
   \<and> coordinator_decoded json_loads extra_key_event = None
   \<and> map_of (extract_all_agent_outputs json_loads (JList [text_value_event]))
        ''financial_coordinator_output'' = Some JNull
   \<and> \<not> aborts_before json_loads (extract_all_agent_outputs json_loads (JList [text_value_event]))
          first_event ''financial_coordinator_output''
   \<and> extract_financial_coordinator_output json_loads
        (JList ([text_value_event] @ first_event # [malformed_entry] @ second_event # [extra_key_event]))
       = JInt 2
   \<and> map_of (extract_all_agent_outputs json_loads
        (JList ([text_value_event] @ first_event # [malformed_entry] @ second_event # [extra_key_event])))
        ''financial_coordinator_output'' = Some (JInt 1)"
proof -
  have h1: "coordinator_value first_event = Some (JStr (fenced ''1''))" by code_simp
  have h2: "decode_strict json_loads (JStr (fenced ''1'')) = Some (JInt 1)" by code_simp
  have h3: "JInt 1 \<noteq> JNull" by simp
  have h4: "coordinator_value second_event = Some (JStr (fenced ''2''))" by code_simp
  have h5: "decode_strict json_loads (JStr (fenced ''2'')) = Some (JInt 2)" by code_simp
  have c: "coordinator_decoded json_loads extra_key_event = None" by code_simp
  have h6: "\<forall>x\<in>set [extra_key_event]. coordinator_decoded json_loads x = None"
    using c by simp
  have h7: "map_of (extract_all_agent_outputs json_loads (JList [text_value_event]))
        ''financial_coordinator_output'' = Some JNull"
    by code_simp
  have h8: "\<not> aborts_before json_loads
          (extract_all_agent_outputs json_loads (JList [text_value_event]))
          first_event ''financial_coordinator_output''"
    by code_simp
  show ?thesis
    using h1 h2 h3 h4 h5 c h7 h8
      later_for_targeted_earlier_for_aggregate[OF h1 h2 h3 h4 h5 h6 h7 h8, of "[malformed_entry]"]
    by blast
qed

text \<open>
  Claim C4 as stated fails, in three ways. \<open>extract_all_agent_outputs\<close> does not look
  at the author: an earlier event of another author that holds the key wins over both
  coordinator events. When the earlier payload is \<^verbatim>\<open>null\<close>, the key is still
  \<open>None\<close> after it and takes the content of the later event. And when the earlier
  event also holds \<open>data_analyst_output\<close> with a value on which \<^verbatim>\<open>json.loads\<close>
  raises \<^verbatim>\<open>ValueError\<close>, its key loop is left before the coordinator's key, which
  again takes the content of the later event.
\<close>

theorem aggregate_ignores_author:
  "map (coordinator_decoded json_loads) [other_author_event, first_event, second_event]
     = [None, Some (JInt 1), Some (JInt 2)]
   \<and> map_of (extract_all_agent_outputs json_loads
         (JList [other_author_event, first_event, second_event]))
        ''financial_coordinator_output'' = Some (JInt 0)
   \<and> map (coordinator_decoded json_loads) [null_payload_event, second_event]
     = [Some JNull, Some (JInt 2)]
   \<and> map_of (extract_all_agent_outputs json_loads (JList [null_payload_event, second_event]))
        ''financial_coordinator_output'' = Some (JInt 2)
   \<and> map (coordinator_decoded json_loads) [blocked_first_event, second_event]
     = [Some (JInt 1), Some (JInt 2)]
   \<and> map_of (extract_all_agent_outputs json_loads (JList [blocked_first_event, second_event]))
        ''financial_coordinator_output'' = Some (JInt 2)"
proof -
  have a: "map (coordinator_decoded json_loads) [other_author_event, first_event, second_event]
     = [None, Some (JInt 1), Some (JInt 2)]
   \<and> map_of (extract_all_agent_outputs json_loads
         (JList [other_author_event, first_event, second_event]))
        ''financial_coordinator_output'' = Some (JInt 0)
   \<and> map (coordinator_decoded json_loads) [null_payload_event, second_event]
     = [Some JNull, Some (JInt 2)]
   \<and> map_of (extract_all_agent_outputs json_loads (JList [null_payload_event, second_event]))
        ''financial_coordinator_output'' = Some (JInt 2)"
    by code_simp
  have sd: "state_delta blocked_first_event =
      Some (JDict [(''data_analyst_output'', JStr (fenced long_integer)),
                   (''financial_coordinator_output'', JStr (fenced ''1''))])"
    by (simp add: blocked_first_event_def state_delta_def dict_field_def)
  have cv: "coordinator_value blocked_first_event = Some (JStr (fenced ''1''))"
    by (simp add: coordinator_value_def delta_value_def sd)
       (simp add: blocked_first_event_def dict_field_def)
  have d1: "decode_strict json_loads (JStr (fenced ''1'')) = Some (JInt 1)" by code_simp
  have d2: "coordinator_decoded json_loads second_event = Some (JInt 2)" by code_simp
  have b: "map (coordinator_decoded json_loads) [blocked_first_event, second_event]
     = [Some (JInt 1), Some (JInt 2)]"
    using cv d1 d2 by (simp add: coordinator_decoded_def)
  have o: "outputs_entry json_loads blocked_first_event initial_outputs = initial_outputs"
    by (simp add: outputs_entry_cases sd initial_outputs_def py_in_JDict
        py_item_def parse_or_raw_long_integer)
  have s: "map_of (extract_all_agent_outputs json_loads (JList [second_event]))
        ''financial_coordinator_output'' = Some (JInt 2)"
    by code_simp
  have c: "map_of (extract_all_agent_outputs json_loads (JList [blocked_first_event, second_event]))
        ''financial_coordinator_output'' = Some (JInt 2)"
    using s by (simp add: extract_all_list o)
  from a b c show ?thesis by simp
qed

subsection \<open>Complete mapping (C5)\<close>

text \<open>
  Claim C5. For a list, the body of \<open>extract_all_agent_outputs\<close> returns normally
  (the handler that returns the empty dict is not reached), the keys of the result are
  the keys of the registry, in its order, and a key for which no event yields a value
  other than \<open>None\<close> holds \<open>None\<close>.
\<close>

theorem all_outputs_complete:
  "all_agent_outputs_try loads (JList es) = Inr (extract_all_agent_outputs loads (JList es))
   \<and> map fst (extract_all_agent_outputs loads (JList es)) = map fst initial_outputs
   \<and> (\<forall>k\<in>set (map fst initial_outputs).
        (\<forall>e\<in>set es. \<forall>v. resolution loads e k = Some (Inr v) \<longrightarrow> v = JNull) \<longrightarrow>
        map_of (extract_all_agent_outputs loads (JList es)) k = Some JNull)"
  by (simp add: extract_all_agent_outputs_def all_agent_outputs_try_def py_iter_def
      scan_entries_keys scan_entries_open initial_outputs_null)

text \<open>
  An instance: no entry of the trace holds \<open>risk_analyst_output\<close>.
\<close>

theorem all_outputs_complete_witness:
  "all_agent_outputs_try json_loads (JList [malformed_entry, extra_key_event])
     = Inr (extract_all_agent_outputs json_loads (JList [malformed_entry, extra_key_event]))
   \<and> map fst (extract_all_agent_outputs json_loads (JList [malformed_entry, extra_key_event]))
     = [''data_analyst_output'', ''trading_analyst_output'', ''risk_analyst_output'',
        ''execution_analyst_output'', ''financial_coordinator_output'']
   \<and> ''risk_analyst_output'' \<in> set (map fst initial_outputs)
   \<and> resolution json_loads malformed_entry ''risk_analyst_output'' = None
   \<and> resolution json_loads extra_key_event ''risk_analyst_output'' = None
   \<and> map_of (extract_all_agent_outputs json_loads (JList [malformed_entry, extra_key_event]))
        ''risk_analyst_output'' = Some JNull"
proof -
  have h1: "''risk_analyst_output'' \<in> set (map fst initial_outputs)" by code_simp
  have a: "resolution json_loads malformed_entry ''risk_analyst_output'' = None" by code_simp
  have b: "resolution json_loads extra_key_event ''risk_analyst_output'' = None" by code_simp
  have h2: "\<forall>e\<in>set [malformed_entry, extra_key_event].
         \<forall>v. resolution json_loads e ''risk_analyst_output'' = Some (Inr v) \<longrightarrow> v = JNull"
    using a b by simp
  have i: "map fst initial_outputs
     = [''data_analyst_output'', ''trading_analyst_output'', ''risk_analyst_output'',
        ''execution_analyst_output'', ''financial_coordinator_output'']"
    by (simp add: initial_outputs_def)
  show ?thesis
    using h1 h2 a b i all_outputs_complete[of json_loads "[malformed_entry, extra_key_event]"]
    by metis
qed

subsection \<open>Text that does not decode (C6)\<close>




subsection \<open>Structured values (C7)\<close>

text \<open>
  Claim C7. The only event of the trace matches and holds a dict, not text. For the
  aggregate extractor the claim holds: the dict is stored as it is. For
  \<open>extract_financial_coordinator_output\<close> it does not: \<^verbatim>\<open>re.search\<close> raises
  \<open>TypeError\<close> on the dict, the handler continues, and the function returns
  \<open>None\<close>.
\<close>

theorem structured_value_skipped:
  "coordinator_value structured_event = Some (JDict [(''score'', JInt 42)])
   \<and> extract_financial_coordinator_output json_loads (JList [structured_event]) = JNull
   \<and> map_of (extract_all_agent_outputs json_loads (JList [structured_event]))
        ''financial_coordinator_output'' = Some (JDict [(''score'', JInt 42)])"
  by code_simp

subsection \<open>Malformed entries (C8)\<close>



subsection \<open>Authors of the summary (C9)\<close>

text \<open>
  Claim C9, amended. \<open>total_entries\<close> is the length of the trace. \<open>authors\<close> has
  one item, in the order of the trace, for each entry that is a JSON object: the value of
  its \<open>author\<close> field, or \<open>unknown\<close> when the field is absent. Its length is
  \<open>total_entries\<close> when every entry is an object.
\<close>

theorem summary_authors_of_records:
  "\<exists>s. extract_conversation_summary (JList es) = Some s
       \<and> total_entries s = length es
       \<and> authors s = map author_or_unknown (filter is_record es)
       \<and> ((\<forall>e\<in>set es. is_record e) \<longrightarrow> length (authors s) = total_entries s)"
  by (simp add: extract_summary_list concat_entry_authors)

text \<open>
  An instance with a repeated author and an entry without author.
\<close>

theorem summary_authors_of_records_witness:
  "is_record extra_key_event \<and> is_record malformed_entry \<and> is_record score_event
   \<and> (\<exists>s. extract_conversation_summary
             (JList [extra_key_event, malformed_entry, score_event, extra_key_event]) = Some s
        \<and> total_entries s = 4
        \<and> authors s = [JStr ''data_analyst'', JStr ''unknown'', JStr ''financial_coordinator'',
                        JStr ''data_analyst'']
        \<and> length (authors s) = total_entries s)"
proof -
  have r: "is_record extra_key_event" "is_record malformed_entry" "is_record score_event"
    by code_simp+
  have h: "\<forall>e\<in>set [extra_key_event, malformed_entry, score_event, extra_key_event]. is_record e"
    using r by simp
  have a: "map author_or_unknown
             (filter is_record [extra_key_event, malformed_entry, score_event, extra_key_event])
           = [JStr ''data_analyst'', JStr ''unknown'', JStr ''financial_coordinator'',
              JStr ''data_analyst'']"
    by code_simp
  show ?thesis
    using r h a
      summary_authors_of_records[of "[extra_key_event, malformed_entry, score_event, extra_key_event]"]
    by auto
qed

text \<open>
  Claim C9 as stated fails. An entry that is not an object has no method \<^verbatim>\<open>get\<close>:
  the handler skips it before anything is appended, and \<open>authors\<close> is shorter than
  \<open>total_entries\<close>.
\<close>

theorem entry_without_author_slot:
  "extract_conversation_summary (JList [JNull]) =
     Some \<lparr>total_entries = 1, authors = [], agent_calls = [], final_output_found = False\<rparr>"
  by code_simp

subsection \<open>The registry (C10)\<close>

text \<open>
  Claim C10. The keys of the result are the five keys of the literal, and removing every
  other key from the \<^verbatim>\<open>stateDelta\<close> of every event leaves the result unchanged.
\<close>

theorem fixed_output_keys:
  "map fst (extract_all_agent_outputs loads (JList es))
     = [''data_analyst_output'', ''trading_analyst_output'', ''risk_analyst_output'',
        ''execution_analyst_output'', ''financial_coordinator_output'']
   \<and> extract_all_agent_outputs loads (JList (map keep_registered es))
       = extract_all_agent_outputs loads (JList es)"
proof -
  have "map fst (extract_all_agent_outputs loads (JList es)) = map fst initial_outputs"
    by (simp add: extract_all_list scan_entries_keys)
  moreover have "extract_all_agent_outputs loads (JList (map keep_registered es))
       = extract_all_agent_outputs loads (JList es)"
    by (simp add: extract_all_list scan_entries_keep_registered)
  ultimately show ?thesis by (simp add: initial_outputs_def)
qed

text \<open>
  An instance: the key \<open>scratch_note\<close> is neither read nor reported.
\<close>

theorem fixed_output_keys_witness:
  "keep_registered extra_key_event =
     JDict [(''author'', JStr ''data_analyst''),
            (''actions'', JDict [(''stateDelta'', JDict [(''data_analyst_output'', JInt 7)])])]
   \<and> extract_all_agent_outputs json_loads (JList [extra_key_event])
       = [(''data_analyst_output'', JInt 7), (''trading_analyst_output'', JNull),
          (''risk_analyst_output'', JNull), (''execution_analyst_output'', JNull),
          (''financial_coordinator_output'', JNull)]
   \<and> extract_all_agent_outputs json_loads (JList (map keep_registered [extra_key_event]))
       = extract_all_agent_outputs json_loads (JList [extra_key_event])"
proof -
  have k: "keep_registered extra_key_event =
     JDict [(''author'', JStr ''data_analyst''),
            (''actions'', JDict [(''stateDelta'', JDict [(''data_analyst_output'', JInt 7)])])]"
    by code_simp
  have v: "extract_all_agent_outputs json_loads (JList [extra_key_event])
       = [(''data_analyst_output'', JInt 7), (''trading_analyst_output'', JNull),
          (''risk_analyst_output'', JNull), (''execution_analyst_output'', JNull),
          (''financial_coordinator_output'', JNull)]"
    by code_simp
  show ?thesis
    using k v fixed_output_keys[of json_loads "[extra_key_event]"] by simp
qed

end
